theory Spec2Isabelle
  imports Complex_Main "HOL-Library.Multiset"
begin

section \<open>Values of the spreadsheet pipeline\<close>

text \<open>
  The pipeline of \<^verbatim>\<open>excelProcessor.ts\<close> works on \<^verbatim>\<open>type Row = any[]\<close>: arrays of
  JavaScript values as the spreadsheet reader decodes them. A cell is a string, a number,
  a boolean or \<^verbatim>\<open>null\<close>; reading an array past its end gives \<^verbatim>\<open>undefined\<close>.

  A JavaScript number is modelled by its mathematical value: \<open>NaN\<close>, the two infinities,
  or an exact rational. The rounding of IEEE doubles is not modelled, and the two zeros are
  one value (\<^verbatim>\<open>Set\<close> and \<^verbatim>\<open>Map\<close> identify them as well). Strings are byte strings;
  case mapping and white space are those of ASCII.
\<close>

datatype number = NaN | Val rat | PosInf | NegInf

datatype cell = Str string | Num number | Bool bool | Null | Undefined

type_synonym Row = "cell list"

type_synonym Table = "Row list"

text \<open>\<^verbatim>\<open>row[i]\<close>: an index past the end of the array reads \<^verbatim>\<open>undefined\<close>.\<close>

definition cellAt :: "Row \<Rightarrow> nat \<Rightarrow> cell" where
  "cellAt row i = (if i < length row then row ! i else Undefined)"

text \<open>\<^verbatim>\<open>row[i] = v\<close>: an index past the end extends the array, the holes read \<^verbatim>\<open>undefined\<close>.\<close>

definition setAt :: "Row \<Rightarrow> nat \<Rightarrow> cell \<Rightarrow> Row" where
  "setAt row i v =
     (if i < length row then row[i := v]
      else row @ replicate (i - length row) Undefined @ [v])"

definition isNaN :: "number \<Rightarrow> bool" where
  "isNaN n = (n = NaN)"

subsection \<open>The coercion \<^verbatim>\<open>Number(x)\<close>\<close>

definition isWhiteSpace :: "char \<Rightarrow> bool" where
  "isWhiteSpace c = ((of_char c :: nat) \<in> {9, 10, 11, 12, 13, 32})"

definition trim :: "string \<Rightarrow> string" where
  "trim s = rev (dropWhile isWhiteSpace (rev (dropWhile isWhiteSpace s)))"

text \<open>The value of a digit in a base up to 16, if the character is one.\<close>

definition digitOf :: "nat \<Rightarrow> char \<Rightarrow> nat option" where
  "digitOf base c =
     (let k = (of_char c :: nat);
          v = (if 48 \<le> k \<and> k \<le> 57 then Some (k - 48)
               else if 97 \<le> k \<and> k \<le> 102 then Some (k - 87)
               else if 65 \<le> k \<and> k \<le> 70 then Some (k - 55)
               else None)
      in case v of None \<Rightarrow> None | Some d \<Rightarrow> if d < base then Some d else None)"

definition isDigit :: "char \<Rightarrow> bool" where
  "isDigit c = (digitOf 10 c \<noteq> None)"

fun digitsValue :: "nat \<Rightarrow> nat \<Rightarrow> string \<Rightarrow> nat option" where
  "digitsValue base acc [] = Some acc"
| "digitsValue base acc (c # cs) =
     (case digitOf base c of
        None \<Rightarrow> None
      | Some d \<Rightarrow> digitsValue base (base * acc + d) cs)"

text \<open>A non-empty run of digits in the base, read as a natural number.\<close>

definition digitsOf :: "nat \<Rightarrow> string \<Rightarrow> nat option" where
  "digitsOf base ds = (if ds = [] then None else digitsValue base 0 ds)"

text \<open>\<^verbatim>\<open>0x\<close>, \<^verbatim>\<open>0o\<close> and \<^verbatim>\<open>0b\<close> literals: the base of the prefix, if there is one.\<close>

definition radixPrefix :: "string \<Rightarrow> (nat \<times> string) option" where
  "radixPrefix t =
     (case t of
        z # x # ds \<Rightarrow>
          (if z = CHR ''0'' then
             (if x = CHR ''x'' \<or> x = CHR ''X'' then Some (16, ds)
              else if x = CHR ''o'' \<or> x = CHR ''O'' then Some (8, ds)
              else if x = CHR ''b'' \<or> x = CHR ''B'' then Some (2, ds)
              else None)
           else None)
      | _ \<Rightarrow> None)"

text \<open>The exponent part of a decimal literal: empty, or \<^verbatim>\<open>e\<close> with a signed run of digits.\<close>

definition exponentPart :: "string \<Rightarrow> int option" where
  "exponentPart r =
     (case r of
        [] \<Rightarrow> Some 0
      | e # ds \<Rightarrow>
          (if e = CHR ''e'' \<or> e = CHR ''E'' then
             (case ds of
                [] \<Rightarrow> None
              | s # ds' \<Rightarrow>
                  (if s = CHR ''-'' then map_option (\<lambda>n. - int n) (digitsOf 10 ds')
                   else if s = CHR ''+'' then map_option int (digitsOf 10 ds')
                   else map_option int (digitsOf 10 ds)))
           else None))"

definition unsignedDecimal :: "string \<Rightarrow> rat option" where
  "unsignedDecimal u =
     (let ip = takeWhile isDigit u;
          r1 = dropWhile isDigit u;
          dot = (r1 \<noteq> [] \<and> hd r1 = CHR ''.'');
          fp = (if dot then takeWhile isDigit (tl r1) else []);
          r2 = (if dot then dropWhile isDigit (tl r1) else r1)
      in if ip = [] \<and> fp = [] then None
         else
           (case (digitsValue 10 0 (ip @ fp), exponentPart r2) of
              (Some m, Some e) \<Rightarrow>
                Some (if 0 \<le> e then of_nat m * 10 ^ nat e / 10 ^ length fp
                      else of_nat m / (10 ^ nat (- e) * 10 ^ length fp))
            | _ \<Rightarrow> None))"

definition decimalLiteral :: "string \<Rightarrow> number" where
  "decimalLiteral t =
     (let neg = (t \<noteq> [] \<and> hd t = CHR ''-'');
          u = (if t \<noteq> [] \<and> (hd t = CHR ''-'' \<or> hd t = CHR ''+'') then tl t else t)
      in if u = ''Infinity'' then (if neg then NegInf else PosInf)
         else
           (case unsignedDecimal u of
              None \<Rightarrow> NaN
            | Some r \<Rightarrow> Val (if neg then - r else r)))"

text \<open>
  \<^verbatim>\<open>Number(s)\<close> on a string: white space is trimmed, the empty string is \<open>0\<close>, a literal
  that is not numeric is \<open>NaN\<close>.
\<close>

definition StringToNumber :: "string \<Rightarrow> number" where
  "StringToNumber s =
     (let t = trim s
      in if t = [] then Val 0
         else
           (case radixPrefix t of
              Some (base, ds) \<Rightarrow>
                (case digitsOf base ds of None \<Rightarrow> NaN | Some n \<Rightarrow> Val (of_nat n))
            | None \<Rightarrow> decimalLiteral t))"

definition Number :: "cell \<Rightarrow> number" where
  "Number c =
     (case c of
        Str s \<Rightarrow> StringToNumber s
      | Num n \<Rightarrow> n
      | Bool b \<Rightarrow> Val (if b then 1 else 0)
      | Null \<Rightarrow> Val 0
      | Undefined \<Rightarrow> NaN)"

section \<open>Initial processing: \<^verbatim>\<open>runInitialProcessing\<close>\<close>

text \<open>
  The spreadsheet library is an external collaborator. A workbook is modelled by what the
  code reads of it: the list \<^verbatim>\<open>SheetNames\<close> and the object \<^verbatim>\<open>Sheets\<close>, each worksheet
  standing for the rows that \<^verbatim>\<open>sheet_to_json(ws, {header: 1, defval: ""})\<close> decodes from it.
  The check that the library itself is loaded is left out.
\<close>

record workbook =
  SheetNames :: "string list"
  Sheets :: "string \<rightharpoonup> Table"

datatype ZraxFilter = NONE | ZOP | OZ

text \<open>
  The three kinds of \<^verbatim>\<open>throw new Error(...)\<close>: \<open>EmptySheet\<close> is
  \<^verbatim>\<open>"Raw Data file is empty or corrupted."\<close>, \<open>MissingWorksheet\<close> is
  \<^verbatim>\<open>"Could not find a usable worksheet ..."\<close>, \<open>MissingColumn\<close> is
  \<^verbatim>\<open>"'Dup_VLOOKUP' column not found ..."\<close> or \<^verbatim>\<open>"'Info_VLOOKUP' column not found."\<close>.
\<close>

datatype error = EmptySheet | MissingWorksheet | MissingColumn

text \<open>\<^verbatim>\<open>rawWb.Sheets[rawWb.SheetNames[0]]\<close>\<close>

definition firstSheet :: "workbook \<Rightarrow> Table option" where
  "firstSheet wb = (case SheetNames wb of [] \<Rightarrow> None | n # _ \<Rightarrow> Sheets wb n)"

subsection \<open>Step 2: the raw data\<close>

text \<open>
  Step 2.1, the filter "Only ZRAX":
  \<^verbatim>\<open>rawData = [headerRow, ...dataRows.filter(row => row[25] === 'ZRAX')]\<close>.
\<close>

definition applyOZ :: "Table \<Rightarrow> Table" where
  "applyOZ rawData =
     (let headerRow = (if length rawData > 0 then rawData ! 0 else []);
          dataRows = (if length rawData > 1 then drop 1 rawData else [])
      in headerRow # filter (\<lambda>row. cellAt row 25 = Str ''ZRAX'') dataRows)"

text \<open>
  Step 2.2, the loop \<^verbatim>\<open>for (let i = 1; i < rawData.length; i++)\<close> over the data rows, with
  the set \<^verbatim>\<open>seen\<close> as its state; the result is what the loop pushes to \<^verbatim>\<open>uniqueData\<close>.
\<close>

fun dedupLoop :: "number set \<Rightarrow> Row list \<Rightarrow> Row list" where
  "dedupLoop seen [] = []"
| "dedupLoop seen (row # rest) =
     (let valA = Number (cellAt row 0)
      in if \<not> isNaN valA \<and> valA \<notin> seen
         then setAt row 0 (Num valA) # dedupLoop (insert valA seen) rest
         else dedupLoop seen rest)"

definition uniqueData :: "Table \<Rightarrow> Table" where
  "uniqueData rawData =
     (let header = (if length rawData > 0 then rawData ! 0 else [])
      in header # dedupLoop {} (drop 1 rawData))"

text \<open>Step 2.3: \<^verbatim>\<open>rawData.map(row => [row[0], ...row.slice(7)])\<close>.\<close>

definition deleteColumns :: "Table \<Rightarrow> Table" where
  "deleteColumns rawData = map (\<lambda>row. cellAt row 0 # drop 7 row) rawData"

text \<open>Step 2.4: \<^verbatim>\<open>rawData[0][1] = 'CTR'\<close> when the header has a second cell.\<close>

definition renameCTR :: "Table \<Rightarrow> Table" where
  "renameCTR rawData =
     (if length rawData > 0 \<and> length (rawData ! 0) > 1
      then rawData[0 := setAt (rawData ! 0) 1 (Str ''CTR'')]
      else rawData)"

definition normalizer :: "ZraxFilter \<Rightarrow> Table \<Rightarrow> Table" where
  "normalizer zraxFilter rawData0 =
     (let rawData = (if zraxFilter = OZ then applyOZ rawData0 else rawData0)
      in renameCTR (deleteColumns (uniqueData rawData)))"

subsection \<open>Steps 3 and 4: the two lookups\<close>

text \<open>
  \<^verbatim>\<open>SheetNames.find(name => name.toLowerCase().includes(target)) || SheetNames[0]\<close>, then
  the test \<^verbatim>\<open>!name || !wb.Sheets[name]\<close>.
\<close>

definition toLowerCase :: "string \<Rightarrow> string" where
  "toLowerCase s =
     map (\<lambda>c. let k = (of_char c :: nat)
               in if 65 \<le> k \<and> k \<le> 90 then char_of (k + 32) else c) s"

definition toUpperCase :: "string \<Rightarrow> string" where
  "toUpperCase s =
     map (\<lambda>c. let k = (of_char c :: nat)
               in if 97 \<le> k \<and> k \<le> 122 then char_of (k - 32) else c) s"

fun startsWith :: "string \<Rightarrow> string \<Rightarrow> bool" where
  "startsWith s [] = True"
| "startsWith [] (p # ps) = False"
| "startsWith (c # cs) (p # ps) = (c = p \<and> startsWith cs ps)"

fun stringIncludes :: "string \<Rightarrow> string \<Rightarrow> bool" where
  "stringIncludes [] sub = (sub = [])"
| "stringIncludes (c # cs) sub = (startsWith (c # cs) sub \<or> stringIncludes cs sub)"

definition findSheet :: "string \<Rightarrow> workbook \<Rightarrow> Table option" where
  "findSheet target wb =
     (let found = find (\<lambda>name. stringIncludes (toLowerCase name) target) (SheetNames wb);
          name = (case found of
                    Some n \<Rightarrow> (if n \<noteq> [] then Some n else None)
                  | None \<Rightarrow> None);
          name' = (case name of
                     Some n \<Rightarrow> Some n
                   | None \<Rightarrow> (case SheetNames wb of [] \<Rightarrow> None | n # _ \<Rightarrow> Some n))
      in case name' of
           None \<Rightarrow> None
         | Some n \<Rightarrow> (if n = [] then None else Sheets wb n))"

text \<open>
  The info lookup: the loop over the data rows of the information sheet, with
  \<^verbatim>\<open>infoSeen\<close> and \<^verbatim>\<open>infoLookup\<close> as its state.
\<close>

fun infoLoop :: "number set \<Rightarrow> (number \<rightharpoonup> cell) \<Rightarrow> Row list \<Rightarrow> (number \<rightharpoonup> cell)" where
  "infoLoop infoSeen infoLookup [] = infoLookup"
| "infoLoop infoSeen infoLookup (row # rest) =
     (let key = Number (cellAt row 1)
      in if \<not> isNaN key \<and> key \<notin> infoSeen
         then infoLoop (insert key infoSeen) (infoLookup(key \<mapsto> cellAt row 6)) rest
         else infoLoop infoSeen infoLookup rest)"

definition buildInfoLookup :: "Table \<Rightarrow> (number \<rightharpoonup> cell)" where
  "buildInfoLookup infoData = infoLoop {} Map.empty (drop 1 infoData)"

fun dupLoop :: "number set \<Rightarrow> Row list \<Rightarrow> number set" where
  "dupLoop dupLookup [] = dupLookup"
| "dupLoop dupLookup (row # rest) =
     (let key = Number (cellAt row 6)
      in if \<not> isNaN key then dupLoop (insert key dupLookup) rest
         else dupLoop dupLookup rest)"

definition buildDupLookup :: "Table \<Rightarrow> number set" where
  "buildDupLookup dupData = dupLoop {} (drop 1 dupData)"

subsection \<open>Step 5: the lookups on the raw data\<close>

text \<open>
  \<^verbatim>\<open>infoLookup.get(key)\<close> and \<^verbatim>\<open>dupLookup.has(key)\<close> with \<^verbatim>\<open>key = row[0]\<close>, a cell: the
  keys of both collections are numbers, so a cell that is not a number finds nothing.
\<close>

definition mapGet :: "(number \<rightharpoonup> cell) \<Rightarrow> cell \<Rightarrow> cell option" where
  "mapGet m key = (case key of Num n \<Rightarrow> m n | _ \<Rightarrow> None)"

definition setHas :: "number set \<Rightarrow> cell \<Rightarrow> bool" where
  "setHas s key = (case key of Num n \<Rightarrow> n \<in> s | _ \<Rightarrow> False)"

text \<open>\<^verbatim>\<open>x ?? d\<close>: \<^verbatim>\<open>d\<close> when \<^verbatim>\<open>x\<close> is \<^verbatim>\<open>undefined\<close> (also what a missing key gives) or \<^verbatim>\<open>null\<close>.\<close>

definition nullish :: "cell option \<Rightarrow> cell \<Rightarrow> cell" where
  "nullish x d =
     (case x of
        None \<Rightarrow> d
      | Some v \<Rightarrow> (if v = Undefined \<or> v = Null then d else v))"

definition enrichRow :: "(number \<rightharpoonup> cell) \<Rightarrow> number set \<Rightarrow> Row \<Rightarrow> Row" where
  "enrichRow infoLookup dupLookup row =
     (let key = cellAt row 0;
          infoValue = nullish (mapGet infoLookup key) (Str ''#N/A'');
          dupValue = (if setHas dupLookup key then key else Str ''#N/A'')
      in row @ [infoValue, dupValue])"

text \<open>\<^verbatim>\<open>rawData.map((row, index) => ...)\<close>: the row of index 0 gets the two labels.\<close>

definition enrich :: "(number \<rightharpoonup> cell) \<Rightarrow> number set \<Rightarrow> Table \<Rightarrow> Table" where
  "enrich infoLookup dupLookup rawData =
     (case rawData of
        [] \<Rightarrow> []
      | header # dataRows \<Rightarrow>
          (header @ [Str ''Info_VLOOKUP'', Str ''Dup_VLOOKUP''])
          # map (enrichRow infoLookup dupLookup) dataRows)"

definition runInitialProcessing ::
  "workbook \<Rightarrow> workbook \<Rightarrow> workbook \<Rightarrow> ZraxFilter \<Rightarrow> error + Table" where
  "runInitialProcessing rawWb infoWb dupWb zraxFilter =
     (case firstSheet rawWb of
        None \<Rightarrow> Inl EmptySheet
      | Some rawData0 \<Rightarrow>
          (let rawData = normalizer zraxFilter rawData0
           in case findSheet ''sheet3'' infoWb of
                None \<Rightarrow> Inl MissingWorksheet
              | Some infoData \<Rightarrow>
                  (case findSheet ''master hold report'' dupWb of
                     None \<Rightarrow> Inl MissingWorksheet
                   | Some dupData \<Rightarrow>
                       Inr (enrich (buildInfoLookup infoData) (buildDupLookup dupData)
                              rawData))))"

section \<open>Assignment: \<^verbatim>\<open>assignAndGenerateExcel\<close>\<close>

subsection \<open>Strings of cells\<close>

text \<open>The truthiness of a cell, as the test \<^verbatim>\<open>row[i] ? ... : ''\<close> reads it.\<close>

definition truthy :: "cell \<Rightarrow> bool" where
  "truthy c =
     (case c of
        Str s \<Rightarrow> s \<noteq> []
      | Num n \<Rightarrow> n \<noteq> NaN \<and> n \<noteq> Val 0
      | Bool b \<Rightarrow> b
      | Null \<Rightarrow> False
      | Undefined \<Rightarrow> False)"

function digitsOfNat :: "nat \<Rightarrow> string" where
  "digitsOfNat n =
     (if n < 10 then [char_of (48 + n)]
      else digitsOfNat (n div 10) @ [char_of (48 + n mod 10)])"
  by pat_completeness auto
termination
  by (relation "measure id") auto

fun fractionDigits :: "nat \<Rightarrow> nat \<Rightarrow> nat \<Rightarrow> string" where
  "fractionDigits 0 r q = []"
| "fractionDigits (Suc fuel) r q =
     (if r = 0 then []
      else char_of (48 + (10 * r) div q) # fractionDigits fuel ((10 * r) mod q) q)"

text \<open>
  \<^verbatim>\<open>String(n)\<close> on a number: the decimal expansion, cut after twenty fraction digits.
  JavaScript prints the shortest digits that read back as the same double, and very large
  or small numbers with an exponent; either way the string holds only digits, a sign, a
  point and the letter \<^verbatim>\<open>e\<close>, or is \<^verbatim>\<open>NaN\<close> or \<^verbatim>\<open>Infinity\<close>.
\<close>

definition NumberToString :: "number \<Rightarrow> string" where
  "NumberToString n =
     (case n of
        NaN \<Rightarrow> ''NaN''
      | PosInf \<Rightarrow> ''Infinity''
      | NegInf \<Rightarrow> ''-Infinity''
      | Val r \<Rightarrow>
          (let (p, q) = quotient_of r;
               a = nat \<bar>p\<bar>;
               d = nat q
           in (if p < 0 then ''-'' else [])
              @ digitsOfNat (a div d)
              @ (if a mod d = 0 then [] else CHR ''.'' # fractionDigits 20 (a mod d) d)))"

text \<open>\<^verbatim>\<open>String(x)\<close>\<close>

definition ToString :: "cell \<Rightarrow> string" where
  "ToString c =
     (case c of
        Str s \<Rightarrow> s
      | Num n \<Rightarrow> NumberToString n
      | Bool b \<Rightarrow> (if b then ''true'' else ''false'')
      | Null \<Rightarrow> ''null''
      | Undefined \<Rightarrow> ''undefined'')"

text \<open>\<^verbatim>\<open>header.findIndex(h => h === label)\<close>, with \<open>None\<close> for \<^verbatim>\<open>-1\<close>.\<close>

fun findIndex :: "('a \<Rightarrow> bool) \<Rightarrow> 'a list \<Rightarrow> nat option" where
  "findIndex P [] = None"
| "findIndex P (x # xs) = (if P x then Some 0 else map_option Suc (findIndex P xs))"

subsection \<open>The helper \<^verbatim>\<open>processAndAssign\<close>\<close>

definition specialCodes :: "string list" where
  "specialCodes = [''RU'', ''UA'', ''NI'', ''VE'', ''BY'', ''CU'', ''IR'', ''KP'', ''SY'']"

text \<open>
  \<^verbatim>\<open>row[infoLookupIndex] ? String(row[infoLookupIndex]).toUpperCase() : ''\<close>
\<close>

definition infoValueOf :: "nat \<Rightarrow> Row \<Rightarrow> string" where
  "infoValueOf infoLookupIndex row =
     (if truthy (cellAt row infoLookupIndex)
      then toUpperCase (ToString (cellAt row infoLookupIndex)) else [])"

record buckets =
  cnRows :: "Row list"
  jpRows :: "Row list"
  specialRows :: "Row list"
  generalRows :: "Row list"

text \<open>
  The loop \<^verbatim>\<open>rowsToAssign.forEach(row => ...)\<close>: each row is copied (\<^verbatim>\<open>[...row]\<close>) to
  the end of one of the four arrays. The codes are a parameter, since the versions of the
  processor differ in them.
\<close>

fun categorizeLoop :: "string list \<Rightarrow> nat \<Rightarrow> Row list \<Rightarrow> buckets \<Rightarrow> buckets" where
  "categorizeLoop codes infoLookupIndex [] b = b"
| "categorizeLoop codes infoLookupIndex (row # rest) b =
     (let infoValue = infoValueOf infoLookupIndex row
      in categorizeLoop codes infoLookupIndex rest
           (if stringIncludes infoValue ''CN'' then b\<lparr>cnRows := cnRows b @ [row]\<rparr>
            else if stringIncludes infoValue ''JP'' then b\<lparr>jpRows := jpRows b @ [row]\<rparr>
            else if list_ex (\<lambda>code. stringIncludes infoValue code) codes
              then b\<lparr>specialRows := specialRows b @ [row]\<rparr>
            else b\<lparr>generalRows := generalRows b @ [row]\<rparr>))"

definition categorize :: "nat \<Rightarrow> Row list \<Rightarrow> buckets" where
  "categorize infoLookupIndex rowsToAssign =
     categorizeLoop specialCodes infoLookupIndex rowsToAssign
       \<lparr>cnRows = [], jpRows = [], specialRows = [], generalRows = []\<rparr>"

text \<open>
  \<^verbatim>\<open>if (names.length > 0) rows.forEach((row, index) => row.unshift(names[index % names.length]));
  else rows.forEach(row => row.unshift(sentinel))\<close>
\<close>

definition assignBucket :: "string list \<Rightarrow> string \<Rightarrow> Row list \<Rightarrow> Row list" where
  "assignBucket assignees sentinel rows =
     (if length assignees > 0
      then map (\<lambda>(index, row). Str (assignees ! (index mod length assignees)) # row)
             (enumerate 0 rows)
      else map (\<lambda>row. Str sentinel # row) rows)"

definition processAndAssign ::
  "Row \<Rightarrow> string list \<Rightarrow> string list \<Rightarrow> string list \<Rightarrow> string list \<Rightarrow> Row list
     \<Rightarrow> error + Row list" where
  "processAndAssign header cnAssignees jpAssignees specialAssignees generalAssignees rowsToAssign =
     (case findIndex (\<lambda>h. h = Str ''Info_VLOOKUP'') header of
        None \<Rightarrow> Inl MissingColumn
      | Some infoLookupIndex \<Rightarrow>
          (let b = categorize infoLookupIndex rowsToAssign
           in Inr (assignBucket cnAssignees ''UNASSIGNED_CN'' (cnRows b)
                   @ assignBucket jpAssignees ''UNASSIGNED_JP'' (jpRows b)
                   @ assignBucket specialAssignees ''UNASSIGNED_SPECIAL'' (specialRows b)
                   @ assignBucket generalAssignees ''UNASSIGNED_GENERAL'' (generalRows b))))"

subsection \<open>Filter, split, pivot and final sheet\<close>

text \<open>Step 1: \<^verbatim>\<open>dataRows.filter(row => row[dupLookupIndex] === '#N/A')\<close>.\<close>

definition filterRows :: "nat \<Rightarrow> Row list \<Rightarrow> Row list" where
  "filterRows dupLookupIndex dataRows =
     filter (\<lambda>row. cellAt row dupLookupIndex = Str ''#N/A'') dataRows"

text \<open>
  \<^verbatim>\<open>finalAssignedRows\<close>: with the filter "ZRAX on priority" the rows whose cell 19 is
  \<^verbatim>\<open>'ZRAX'\<close> are assigned first, then the others; otherwise all rows at once.
\<close>

definition isZrax :: "Row \<Rightarrow> bool" where
  "isZrax row = (length row > 19 \<and> cellAt row 19 = Str ''ZRAX'')"

definition finalAssignedRows ::
  "Row \<Rightarrow> string list \<Rightarrow> string list \<Rightarrow> string list \<Rightarrow> string list \<Rightarrow> ZraxFilter
     \<Rightarrow> Row list \<Rightarrow> error + Row list" where
  "finalAssignedRows header cnAssignees jpAssignees specialAssignees generalAssignees zraxFilter
       filteredRows =
     (if zraxFilter = ZOP then
        (let zraxRows = filter isZrax filteredRows;
             otherRows = filter (\<lambda>row. \<not> isZrax row) filteredRows
         in case processAndAssign header cnAssignees jpAssignees specialAssignees
                   generalAssignees zraxRows of
              Inl e \<Rightarrow> Inl e
            | Inr assignedZrax \<Rightarrow>
                (case processAndAssign header cnAssignees jpAssignees specialAssignees
                        generalAssignees otherRows of
                   Inl e \<Rightarrow> Inl e
                 | Inr assignedOthers \<Rightarrow> Inr (assignedZrax @ assignedOthers)))
      else processAndAssign header cnAssignees jpAssignees specialAssignees generalAssignees
             filteredRows)"

text \<open>
  The map \<^verbatim>\<open>screenerCounts\<close>, its entries in the order of insertion:
  \<^verbatim>\<open>screenerCounts.set(screener, (screenerCounts.get(screener) || 0) + 1)\<close>.
\<close>

fun countScreener :: "string \<Rightarrow> (string \<times> nat) list \<Rightarrow> (string \<times> nat) list" where
  "countScreener screener [] = [(screener, 1)]"
| "countScreener screener ((name, n) # entries) =
     (if name = screener then (name, n + 1) # entries
      else (name, n) # countScreener screener entries)"

text \<open>
  \<^verbatim>\<open>row[0] as string\<close>: the cast does nothing when the program runs; the first cell of
  an assigned row is the owner's name, a string.
\<close>

definition screenerOf :: "Row \<Rightarrow> string" where
  "screenerOf row = ToString (cellAt row 0)"

definition screenerCounts :: "Row list \<Rightarrow> (string \<times> nat) list" where
  "screenerCounts rows = foldl (\<lambda>counts row. countScreener (screenerOf row) counts) [] rows"

text \<open>
  \<^verbatim>\<open>Array.prototype.sort\<close> with a comparison function, as a stable insertion sort: an
  element goes before the first one it compares less than.
\<close>

fun insertBy :: "('a \<Rightarrow> 'a \<Rightarrow> int) \<Rightarrow> 'a \<Rightarrow> 'a list \<Rightarrow> 'a list" where
  "insertBy cmp x [] = [x]"
| "insertBy cmp x (y # ys) = (if cmp x y < 0 then x # y # ys else y # insertBy cmp x ys)"

definition sortBy :: "('a \<Rightarrow> 'a \<Rightarrow> int) \<Rightarrow> 'a list \<Rightarrow> 'a list" where
  "sortBy cmp xs = foldl (\<lambda>sorted x. insertBy cmp x sorted) [] xs"

record PivotEntry =
  screener :: string
  rowCount :: nat

text \<open>
  The comparison \<^verbatim>\<open>a.screener.localeCompare(b.screener)\<close> is the host's; it is the
  parameter \<open>localeCompare\<close> of the model.
\<close>

definition pivotOf :: "(string \<Rightarrow> string \<Rightarrow> int) \<Rightarrow> Row list \<Rightarrow> PivotEntry list" where
  "pivotOf localeCompare rows =
     sortBy (\<lambda>a b. localeCompare (screener a) (screener b))
       (map (\<lambda>(name, n). \<lparr>screener = name, rowCount = n\<rparr>) (screenerCounts rows))"

text \<open>\<^verbatim>\<open>xs.splice(i, 1)\<close>\<close>

definition splice1 :: "nat \<Rightarrow> 'a list \<Rightarrow> 'a list" where
  "splice1 i xs = take i xs @ drop (Suc i) xs"

text \<open>
  Step 5.1: when the header has a column \<^verbatim>\<open>'CTR'\<close>, at \<^verbatim>\<open>ctrIndex\<close>, that cell is cut
  out of the header (\<open>shift = 0\<close>) and the cell at \<^verbatim>\<open>ctrIndex + 1\<close> out of each assigned
  row (\<open>shift = 1\<close>, for the owner's cell in front).
\<close>

definition removeCTR :: "nat option \<Rightarrow> nat \<Rightarrow> Row \<Rightarrow> Row" where
  "removeCTR ctrIndex shift row =
     (case ctrIndex of None \<Rightarrow> row | Some i \<Rightarrow> splice1 (i + shift) row)"

record AssignResult =
  fileData :: Table
  pivotData :: "PivotEntry list"

text \<open>
  The result holds, for \<^verbatim>\<open>fileData\<close>, the table \<^verbatim>\<open>finalSheetData\<close> that goes to the
  spreadsheet writer; the styling of the header and the encoding are the writer's.
\<close>

definition assignAndGenerateExcel ::
  "(string \<Rightarrow> string \<Rightarrow> int) \<Rightarrow> Table \<Rightarrow> string list \<Rightarrow> string list \<Rightarrow> string list
     \<Rightarrow> string list \<Rightarrow> ZraxFilter \<Rightarrow> error + AssignResult" where
  "assignAndGenerateExcel localeCompare processedData cnAssignees jpAssignees specialAssignees
       generalAssignees zraxFilter =
     (let header = (if length processedData > 0 then processedData ! 0 else [])
      in if length processedData < 2 then Inr \<lparr>fileData = [header], pivotData = []\<rparr>
         else
           (let dataRows = drop 1 processedData
            in case findIndex (\<lambda>h. h = Str ''Dup_VLOOKUP'') header of
                 None \<Rightarrow> Inl MissingColumn
               | Some dupLookupIndex \<Rightarrow>
                   (case finalAssignedRows header cnAssignees jpAssignees specialAssignees
                           generalAssignees zraxFilter (filterRows dupLookupIndex dataRows) of
                      Inl e \<Rightarrow> Inl e
                    | Inr assigned \<Rightarrow>
                        (let pivot = pivotOf localeCompare assigned;
                             ctrIndex = findIndex (\<lambda>h. h = Str ''CTR'') header;
                             header' = removeCTR ctrIndex 0 header;
                             assigned' = map (removeCTR ctrIndex 1) assigned
                         in Inr \<lparr>fileData = (Str ''Screener'' # header') # assigned',
                                 pivotData = pivot\<rparr>))))"

section \<open>The first version of the assignment step, on a store\<close>

text \<open>
  \<^verbatim>\<open>src/services/excelProcessor.ts\<close> holds the first version of
  \<^verbatim>\<open>assignAndGenerateExcel\<close>. It takes the header and the data rows out of
  \<^verbatim>\<open>processedData\<close> without copying them and calls \<^verbatim>\<open>unshift\<close> on these arrays, so
  what it does to its argument depends on which arrays are shared. The model has a store
  for that: the rows live in a list, a reference to a row is its index, and
  \<^verbatim>\<open>processedData\<close> is a list of references.
\<close>

type_synonym ref = nat

type_synonym store = "Row list"

definition deref :: "store \<Rightarrow> ref \<Rightarrow> Row" where
  "deref s r = (if r < length s then s ! r else [])"

text \<open>\<^verbatim>\<open>row.unshift(c)\<close> on the array that \<open>r\<close> refers to.\<close>

definition unshift :: "ref \<Rightarrow> cell \<Rightarrow> store \<Rightarrow> store" where
  "unshift r c s = s[r := c # deref s r]"

text \<open>The special codes of this version.\<close>

definition specialCodes_legacy :: "string list" where
  "specialCodes_legacy = [''RU'', ''UA'', ''NI'', ''VE'', ''BY'']"

record refBuckets =
  cnRefs :: "ref list"
  jpRefs :: "ref list"
  specialRefs :: "ref list"
  generalRefs :: "ref list"

text \<open>The loop \<^verbatim>\<open>filteredRows.forEach(row => ...)\<close>: the row itself is pushed.\<close>

fun categorizeRefs :: "string list \<Rightarrow> nat \<Rightarrow> store \<Rightarrow> ref list \<Rightarrow> refBuckets \<Rightarrow> refBuckets" where
  "categorizeRefs codes infoLookupIndex s [] b = b"
| "categorizeRefs codes infoLookupIndex s (r # rest) b =
     (let infoValue = infoValueOf infoLookupIndex (deref s r)
      in categorizeRefs codes infoLookupIndex s rest
           (if stringIncludes infoValue ''CN'' then b\<lparr>cnRefs := cnRefs b @ [r]\<rparr>
            else if stringIncludes infoValue ''JP'' then b\<lparr>jpRefs := jpRefs b @ [r]\<rparr>
            else if list_ex (\<lambda>code. stringIncludes infoValue code) codes
              then b\<lparr>specialRefs := specialRefs b @ [r]\<rparr>
            else b\<lparr>generalRefs := generalRefs b @ [r]\<rparr>))"

text \<open>
  \<^verbatim>\<open>if (names.length > 0) { rows.forEach((row, index) => { row.unshift(names[index % names.length]); }); }
  else { rows.forEach(row => row.unshift(sentinel)); }\<close>
\<close>

definition unshiftOwners :: "string list \<Rightarrow> string \<Rightarrow> ref list \<Rightarrow> store \<Rightarrow> store" where
  "unshiftOwners assignees sentinel refs s =
     (if length assignees > 0
      then fold (\<lambda>(index, r). unshift r (Str (assignees ! (index mod length assignees))))
             (enumerate 0 refs) s
      else fold (\<lambda>r. unshift r (Str sentinel)) refs s)"

text \<open>
  The result is the store after the call and the table \<^verbatim>\<open>finalAssignedData\<close> that
  goes to the spreadsheet writer.
\<close>

definition assignAndGenerateExcel_legacy ::
  "store \<Rightarrow> ref list \<Rightarrow> string list \<Rightarrow> string list \<Rightarrow> string list \<Rightarrow> string list
     \<Rightarrow> error + (store \<times> Table)" where
  "assignAndGenerateExcel_legacy s processedData cnAssignees jpAssignees specialAssignees
       generalAssignees =
     (if length processedData < 2 then Inr (s, map (deref s) processedData)
      else
        (let header = processedData ! 0;
             dataRows = drop 1 processedData
         in case findIndex (\<lambda>h. h = Str ''Dup_VLOOKUP'') (deref s header) of
              None \<Rightarrow> Inl MissingColumn
            | Some dupLookupIndex \<Rightarrow>
                (let filteredRows =
                       filter (\<lambda>r. cellAt (deref s r) dupLookupIndex = Str ''#N/A'') dataRows
                 in case findIndex (\<lambda>h. h = Str ''Info_VLOOKUP'') (deref s header) of
                      None \<Rightarrow> Inl MissingColumn
                    | Some infoLookupIndex \<Rightarrow>
                        (let s1 = unshift header (Str ''Screener'') s;
                             b = categorizeRefs specialCodes_legacy infoLookupIndex s1 filteredRows
                                   \<lparr>cnRefs = [], jpRefs = [], specialRefs = [], generalRefs = []\<rparr>;
                             s2 = unshiftOwners cnAssignees ''UNASSIGNED_CN'' (cnRefs b) s1;
                             s3 = unshiftOwners jpAssignees ''UNASSIGNED_JP'' (jpRefs b) s2;
                             s4 = unshiftOwners specialAssignees ''UNASSIGNED_SPECIAL''
                                    (specialRefs b) s3;
                             s5 = unshiftOwners generalAssignees ''UNASSIGNED_GENERAL''
                                    (generalRefs b) s4
                         in Inr (s5, map (deref s5)
                                       (header # cnRefs b @ jpRefs b @ specialRefs b
                                          @ generalRefs b))))))"

section \<open>The current assignment step, on the store\<close>

text \<open>
  The current version copies before it changes an array: the header
  (\<^verbatim>\<open>[...processedData[0]]\<close>) and each row that it pushes into a bucket
  (\<^verbatim>\<open>[...row]\<close>). Here it is once more with the arrays in the store, a copy being a
  new row at the end of the store, so that what the call does to its argument can be
  stated.
\<close>

definition alloc :: "Row \<Rightarrow> store \<Rightarrow> ref \<times> store" where
  "alloc row s = (length s, s @ [row])"

fun categorizeCopies ::
  "string list \<Rightarrow> nat \<Rightarrow> ref list \<Rightarrow> refBuckets \<Rightarrow> store \<Rightarrow> refBuckets \<times> store" where
  "categorizeCopies codes infoLookupIndex [] b s = (b, s)"
| "categorizeCopies codes infoLookupIndex (r # rest) b s =
     (let infoValue = infoValueOf infoLookupIndex (deref s r);
          (copy, s') = alloc (deref s r) s
      in categorizeCopies codes infoLookupIndex rest
           (if stringIncludes infoValue ''CN'' then b\<lparr>cnRefs := cnRefs b @ [copy]\<rparr>
            else if stringIncludes infoValue ''JP'' then b\<lparr>jpRefs := jpRefs b @ [copy]\<rparr>
            else if list_ex (\<lambda>code. stringIncludes infoValue code) codes
              then b\<lparr>specialRefs := specialRefs b @ [copy]\<rparr>
            else b\<lparr>generalRefs := generalRefs b @ [copy]\<rparr>)
           s')"

definition processAndAssign_store ::
  "ref \<Rightarrow> string list \<Rightarrow> string list \<Rightarrow> string list \<Rightarrow> string list \<Rightarrow> ref list \<Rightarrow> store
     \<Rightarrow> error + (ref list \<times> store)" where
  "processAndAssign_store header cnAssignees jpAssignees specialAssignees generalAssignees
       rowsToAssign s =
     (case findIndex (\<lambda>h. h = Str ''Info_VLOOKUP'') (deref s header) of
        None \<Rightarrow> Inl MissingColumn
      | Some infoLookupIndex \<Rightarrow>
          (let (b, s1) = categorizeCopies specialCodes infoLookupIndex rowsToAssign
                           \<lparr>cnRefs = [], jpRefs = [], specialRefs = [], generalRefs = []\<rparr> s;
               s2 = unshiftOwners cnAssignees ''UNASSIGNED_CN'' (cnRefs b) s1;
               s3 = unshiftOwners jpAssignees ''UNASSIGNED_JP'' (jpRefs b) s2;
               s4 = unshiftOwners specialAssignees ''UNASSIGNED_SPECIAL'' (specialRefs b) s3;
               s5 = unshiftOwners generalAssignees ''UNASSIGNED_GENERAL'' (generalRefs b) s4
           in Inr (cnRefs b @ jpRefs b @ specialRefs b @ generalRefs b, s5)))"

text \<open>\<^verbatim>\<open>row.splice(i, 1)\<close> on the array that \<open>r\<close> refers to.\<close>

definition spliceAt :: "nat \<Rightarrow> ref \<Rightarrow> store \<Rightarrow> store" where
  "spliceAt i r s = s[r := splice1 i (deref s r)]"

definition finalAssignedRows_store ::
  "ref \<Rightarrow> string list \<Rightarrow> string list \<Rightarrow> string list \<Rightarrow> string list \<Rightarrow> ZraxFilter
     \<Rightarrow> ref list \<Rightarrow> store \<Rightarrow> error + (ref list \<times> store)" where
  "finalAssignedRows_store header cnAssignees jpAssignees specialAssignees generalAssignees
       zraxFilter filteredRows s =
     (if zraxFilter = ZOP then
        (let zraxRows = filter (\<lambda>r. isZrax (deref s r)) filteredRows;
             otherRows = filter (\<lambda>r. \<not> isZrax (deref s r)) filteredRows
         in case processAndAssign_store header cnAssignees jpAssignees specialAssignees
                   generalAssignees zraxRows s of
              Inl e \<Rightarrow> Inl e
            | Inr (assignedZrax, s1) \<Rightarrow>
                (case processAndAssign_store header cnAssignees jpAssignees specialAssignees
                        generalAssignees otherRows s1 of
                   Inl e \<Rightarrow> Inl e
                 | Inr (assignedOthers, s2) \<Rightarrow> Inr (assignedZrax @ assignedOthers, s2)))
      else processAndAssign_store header cnAssignees jpAssignees specialAssignees
             generalAssignees filteredRows s)"

definition assignAndGenerateExcel_store ::
  "(string \<Rightarrow> string \<Rightarrow> int) \<Rightarrow> store \<Rightarrow> ref list \<Rightarrow> string list \<Rightarrow> string list
     \<Rightarrow> string list \<Rightarrow> string list \<Rightarrow> ZraxFilter \<Rightarrow> error + (store \<times> AssignResult)" where
  "assignAndGenerateExcel_store localeCompare s processedData cnAssignees jpAssignees
       specialAssignees generalAssignees zraxFilter =
     (let (header, s0) =
            alloc (if length processedData > 0 then deref s (processedData ! 0) else []) s
      in if length processedData < 2
         then Inr (s0, \<lparr>fileData = [deref s0 header], pivotData = []\<rparr>)
         else
           (let dataRows = drop 1 processedData
            in case findIndex (\<lambda>h. h = Str ''Dup_VLOOKUP'') (deref s0 header) of
                 None \<Rightarrow> Inl MissingColumn
               | Some dupLookupIndex \<Rightarrow>
                   (let filteredRows =
                          filter (\<lambda>r. cellAt (deref s0 r) dupLookupIndex = Str ''#N/A'') dataRows
                    in case finalAssignedRows_store header cnAssignees jpAssignees
                              specialAssignees generalAssignees zraxFilter filteredRows s0 of
                         Inl e \<Rightarrow> Inl e
                       | Inr (assigned, s3) \<Rightarrow>
                           (let pivot = pivotOf localeCompare (map (deref s3) assigned);
                                ctrIndex = findIndex (\<lambda>h. h = Str ''CTR'') (deref s3 header);
                                s4 = (case ctrIndex of
                                        None \<Rightarrow> s3
                                      | Some i \<Rightarrow>
                                          fold (spliceAt (i + 1)) assigned (spliceAt i header s3));
                                s5 = unshift header (Str ''Screener'') s4
                            in Inr (s5, \<lparr>fileData = map (deref s5) (header # assigned),
                                         pivotData = pivot\<rparr>)))))"

section \<open>Notions of the specification\<close>

text \<open>
  The definitions of this section are not code: they say, in the words of the
  specification, what the loops above compute, and the theorems compare the two.
\<close>

text \<open>The key of a row: the numeric value of its first cell.\<close>

definition rowKey :: "Row \<Rightarrow> number" where
  "rowKey row = Number (cellAt row 0)"

text \<open>
  The data row of index \<open>i\<close> is kept by the key coercion: its key is a number and no
  earlier row has the same key.
\<close>

definition keptIndex :: "Row list \<Rightarrow> nat \<Rightarrow> bool" where
  "keptIndex rows i =
     (\<not> isNaN (rowKey (rows ! i)) \<and> rowKey (rows ! i) \<notin> rowKey ` set (take i rows))"

text \<open>The same when the loop starts with the keys \<open>seen\<close> behind it.\<close>

definition freshIndex :: "number set \<Rightarrow> Row list \<Rightarrow> nat \<Rightarrow> bool" where
  "freshIndex seen rows i =
     (\<not> isNaN (rowKey (rows ! i)) \<and> rowKey (rows ! i) \<notin> seen \<union> rowKey ` set (take i rows))"


text \<open>The table that reaches the key coercion: all of it, or the rows flagged ZRAX.\<close>

definition prefilter :: "ZraxFilter \<Rightarrow> Table \<Rightarrow> Table" where
  "prefilter zraxFilter rawData = (if zraxFilter = OZ then applyOZ rawData else rawData)"

text \<open>
  The first-seen value of column G for a key in the info table, and whether a key occurs
  in column G of the duplicate table.
\<close>

definition firstSeenInfo :: "Table \<Rightarrow> number \<Rightarrow> cell option" where
  "firstSeenInfo infoData k =
     map_option (\<lambda>row. cellAt row 6)
       (find (\<lambda>row. Number (cellAt row 1) = k) (drop 1 infoData))"

definition inDuplicateIndex :: "Table \<Rightarrow> number \<Rightarrow> bool" where
  "inDuplicateIndex dupData k = (k \<in> (\<lambda>row. Number (cellAt row 6)) ` set (drop 1 dupData))"

text \<open>
  The bucket of a row, by the first match on its upper-cased info value, for a set of
  special codes.
\<close>

datatype bucket = CN | JP | SPECIAL | GENERAL

definition bucketFor :: "string list \<Rightarrow> nat \<Rightarrow> Row \<Rightarrow> bucket" where
  "bucketFor codes infoLookupIndex row =
     (let v = infoValueOf infoLookupIndex row
      in if stringIncludes v ''CN'' then CN
         else if stringIncludes v ''JP'' then JP
         else if \<exists>code \<in> set codes. stringIncludes v code then SPECIAL
         else GENERAL)"

text \<open>The tally of owners, from any counts to start with.\<close>

definition tally :: "(string \<times> nat) list \<Rightarrow> Row list \<Rightarrow> (string \<times> nat) list" where
  "tally m rows = foldl (\<lambda>counts row. countScreener (screenerOf row) counts) m rows"

text \<open>
  What sorting needs of the host's comparison: the two directions agree, and being less
  is transitive.
\<close>

definition consistentCompare :: "(string \<Rightarrow> string \<Rightarrow> int) \<Rightarrow> bool" where
  "consistentCompare cmp =
     ((\<forall>a b. (cmp a b < 0) = (0 < cmp b a))
      \<and> (\<forall>a b c. cmp a b < 0 \<and> cmp b c < 0 \<longrightarrow> cmp a c < 0))"

text \<open>
  The ordinary lexicographic comparison of strings, character code by character code.
\<close>

fun lexCompare :: "string \<Rightarrow> string \<Rightarrow> int" where
  "lexCompare [] [] = 0"
| "lexCompare [] (y # ys) = - 1"
| "lexCompare (x # xs) [] = 1"
| "lexCompare (x # xs) (y # ys) =
     (if (of_char x :: nat) < of_char y then - 1
      else if (of_char y :: nat) < of_char x then 1
      else lexCompare xs ys)"

text \<open>
  The comparison that \<^verbatim>\<open>localeCompare\<close> makes of two names written in ASCII letters,
  in the host's default collation: by the letters without regard to case, and for the
  same letters the lower case before the upper case at the first place where the cases
  differ. So \<open>alice\<close> comes before \<open>Bob\<close>, which the comparison of character codes
  puts first. Outside the ASCII letters the host's order is not this one.
\<close>

definition localeCompare_ascii :: "string \<Rightarrow> string \<Rightarrow> int" where
  "localeCompare_ascii a b =
     (let c = lexCompare (toLowerCase a) (toLowerCase b)
      in if c \<noteq> 0 then c else lexCompare b a)"

text \<open>A comparison that is 0 on equal strings only: a total order of the names.\<close>

definition separatingCompare :: "(string \<Rightarrow> string \<Rightarrow> int) \<Rightarrow> bool" where
  "separatingCompare cmp = (\<forall>a b. cmp a b = 0 \<longrightarrow> a = b)"

text \<open>The references that the buckets hold.\<close>

definition bucketRefs :: "refBuckets \<Rightarrow> ref set" where
  "bucketRefs b = set (cnRefs b) \<union> set (jpRefs b) \<union> set (specialRefs b) \<union> set (generalRefs b)"

text \<open>
  The copies that the categorisation of \<open>refs\<close> creates for the bucket \<open>B\<close>: the
  copy of the row at position \<open>i\<close> is the array \<open>length s + i\<close> of the store.
\<close>

definition freshRefs :: "string list \<Rightarrow> nat \<Rightarrow> store \<Rightarrow> ref list \<Rightarrow> bucket \<Rightarrow> ref list" where
  "freshRefs codes idx s refs B =
     map (\<lambda>i. length s + i)
       (filter (\<lambda>i. bucketFor codes idx (deref s (refs ! i)) = B) [0..<length refs])"

section \<open>The key coercion\<close>

lemma filter_upt_Suc_shift:
  "filter P [0..<Suc n] = (if P 0 then [0] else []) @ map Suc (filter (\<lambda>i. P (Suc i)) [0..<n])"
proof -
  have "[0..<Suc n] = 0 # map Suc [0..<n]"
    by (simp add: upt_conv_Cons map_Suc_upt del: upt_Suc)
  then show ?thesis
    by (simp add: filter_map comp_def del: upt_Suc)
qed

lemma rowKey_Num [simp]: "rowKey (Num k # r) = k"
  by (simp add: rowKey_def cellAt_def Number_def)

lemma freshIndex_0:
  "freshIndex seen (row # rest) 0 = (\<not> isNaN (rowKey row) \<and> rowKey row \<notin> seen)"
  by (simp add: freshIndex_def)

lemma freshIndex_Suc_kept:
  "freshIndex seen (row # rest) (Suc i) = freshIndex (insert (rowKey row) seen) rest i"
  by (auto simp add: freshIndex_def)

lemma freshIndex_Suc_dropped:
  "isNaN (rowKey row) \<or> rowKey row \<in> seen \<Longrightarrow>
   freshIndex seen (row # rest) (Suc i) = freshIndex seen rest i"
  by (auto simp add: freshIndex_def isNaN_def)

lemma freshIndex_empty: "freshIndex {} rows = keptIndex rows"
  by (rule ext) (simp add: freshIndex_def keptIndex_def)

text \<open>
  The invariant of the loop: started with the keys \<open>seen\<close>, it pushes the rows of the
  fresh indices, in their order, each with its first cell set to its key.
\<close>

lemma dedupLoop_index:
  "dedupLoop seen rows =
     map (\<lambda>i. setAt (rows ! i) 0 (Num (rowKey (rows ! i))))
       (filter (freshIndex seen rows) [0..<length rows])"
proof (induction rows arbitrary: seen)
  case Nil
  show ?case by simp
next
  case (Cons row rest)
  let ?k = "rowKey row"
  show ?case
  proof (cases "\<not> isNaN ?k \<and> ?k \<notin> seen")
    case True
    have "dedupLoop seen (row # rest) = setAt row 0 (Num ?k) # dedupLoop (insert ?k seen) rest"
      using True by (simp add: rowKey_def Let_def)
    then show ?thesis using True
      by (simp add: Cons.IH filter_upt_Suc_shift freshIndex_0 freshIndex_Suc_kept comp_def
          del: upt_Suc)
  next
    case False
    then have d: "isNaN ?k \<or> ?k \<in> seen" by blast
    have "dedupLoop seen (row # rest) = dedupLoop seen rest"
      using False by (auto simp add: rowKey_def Let_def)
    then show ?thesis using False
      by (simp add: Cons.IH filter_upt_Suc_shift freshIndex_0 freshIndex_Suc_dropped [OF d]
          comp_def del: upt_Suc)
  qed
qed

text \<open>A row with a numeric key has a first cell, so the assignment replaces it.\<close>

lemma setAt_0_kept: "\<not> isNaN (rowKey row) \<Longrightarrow> setAt row 0 v = v # tl row"
  by (cases row) (auto simp add: rowKey_def cellAt_def setAt_def Number_def isNaN_def)

lemma uniqueData_index:
  "uniqueData rawData =
     (case rawData of [] \<Rightarrow> [] | header # _ \<Rightarrow> header)
     # map (\<lambda>i. Num (rowKey (drop 1 rawData ! i)) # tl (drop 1 rawData ! i))
         (filter (keptIndex (drop 1 rawData)) [0..<length (drop 1 rawData)])"
proof -
  have "map (\<lambda>i. setAt (rows ! i) 0 (Num (rowKey (rows ! i))))
          (filter (keptIndex rows) [0..<length rows])
      = map (\<lambda>i. Num (rowKey (rows ! i)) # tl (rows ! i))
          (filter (keptIndex rows) [0..<length rows])"
    for rows
    by (rule map_cong) (auto simp add: keptIndex_def setAt_0_kept)
  then show ?thesis
    by (cases rawData) (simp_all add: uniqueData_def dedupLoop_index freshIndex_empty)
qed

lemma deleteColumns_kept:
  "cellAt (Num k # tl row) 0 # drop 7 (Num k # tl row) = Num k # drop 7 row"
  by (cases row) (simp_all add: cellAt_def)

lemma deleteColumns_map_kept:
  "deleteColumns (map (\<lambda>i. Num (f i) # tl (g i)) is) = map (\<lambda>i. Num (f i) # drop 7 (g i)) is"
  unfolding deleteColumns_def map_map comp_def deleteColumns_kept ..

lemma renameCTR_tl: "drop 1 (renameCTR t) = drop 1 t"
  by (cases t) (simp_all add: renameCTR_def)

lemma normalizer_rows:
  "drop 1 (normalizer zraxFilter rawData) =
     map (\<lambda>i. Num (rowKey (drop 1 (prefilter zraxFilter rawData) ! i))
               # drop 7 (drop 1 (prefilter zraxFilter rawData) ! i))
       (filter (keptIndex (drop 1 (prefilter zraxFilter rawData)))
          [0..<length (drop 1 (prefilter zraxFilter rawData))])"
proof -
  let ?t = "prefilter zraxFilter rawData"
  have "drop 1 (normalizer zraxFilter rawData) = drop 1 (deleteColumns (uniqueData ?t))"
    by (simp only: normalizer_def Let_def prefilter_def [symmetric] renameCTR_tl)
  also have "\<dots> = deleteColumns (drop 1 (uniqueData ?t))"
    by (simp add: deleteColumns_def drop_map)
  also have "drop 1 (uniqueData ?t) =
      map (\<lambda>i. Num (rowKey (drop 1 ?t ! i)) # tl (drop 1 ?t ! i))
        (filter (keptIndex (drop 1 ?t)) [0..<length (drop 1 ?t)])"
    by (subst uniqueData_index) simp
  finally show ?thesis
    by (simp only: deleteColumns_map_kept)
qed

lemma normalizer_nonempty: "normalizer z rawData \<noteq> []"
  by (simp add: normalizer_def Let_def renameCTR_def deleteColumns_def uniqueData_def)

lemma normalizer_row_key:
  assumes "row \<in> set (drop 1 (normalizer z rawData))"
  shows "\<exists>k r. row = Num k # r \<and> \<not> isNaN k"
  using assms unfolding normalizer_rows by (auto simp add: keptIndex_def)

text \<open>
  Claim C5. The Normalizer keeps the header row and goes through the data rows in their
  order: a row whose first cell does not coerce to a number is dropped, a row whose key
  an earlier row already has is dropped, and every row that is kept has its first cell
  replaced by the coerced number. So the step 2.2 gives the header and, for the indices
  that \<open>keptIndex\<close> keeps, in increasing order, the row with its key in front; the
  Normalizer as a whole gives the same data rows with the columns 1 to 6 cut out.
\<close>

theorem normalizer_keeps_first_occurrence:
  "uniqueData rawData =
     (case rawData of [] \<Rightarrow> [] | header # _ \<Rightarrow> header)
     # map (\<lambda>i. Num (rowKey (drop 1 rawData ! i)) # tl (drop 1 rawData ! i))
         (filter (keptIndex (drop 1 rawData)) [0..<length (drop 1 rawData)])
   \<and> drop 1 (normalizer zraxFilter rawData) =
       map (\<lambda>i. Num (rowKey (drop 1 (prefilter zraxFilter rawData) ! i))
                 # drop 7 (drop 1 (prefilter zraxFilter rawData) ! i))
         (filter (keptIndex (drop 1 (prefilter zraxFilter rawData)))
            [0..<length (drop 1 (prefilter zraxFilter rawData))])"
  using uniqueData_index normalizer_rows by (rule conjI)

text \<open>
  The scenario of the specification: a header and the rows \<open>[5, ..]\<close>, \<open>[5, ..]\<close>,
  \<open>[abc, ..]\<close>, \<open>[7, ..]\<close> give the header, the first row of key 5 and the row of key 7.
\<close>

theorem normalizer_keeps_first_occurrence_example:
  "uniqueData [[Str ''ID'', Str ''Name''], [Num (Val 5), Str ''a''], [Str ''5'', Str ''b''],
               [Str ''abc'', Str ''c''], [Num (Val 7), Str ''d'']]
     = [[Str ''ID'', Str ''Name''], [Num (Val 5), Str ''a''], [Num (Val 7), Str ''d'']]"
proof -
  let ?raw = "[[Str ''ID'', Str ''Name''], [Num (Val 5), Str ''a''], [Str ''5'', Str ''b''],
               [Str ''abc'', Str ''c''], [Num (Val 7), Str ''d'']]"
  have "uniqueData ?raw =
     (case ?raw of [] \<Rightarrow> [] | header # _ \<Rightarrow> header)
     # map (\<lambda>i. Num (rowKey (drop 1 ?raw ! i)) # tl (drop 1 ?raw ! i))
         (filter (keptIndex (drop 1 ?raw)) [0..<length (drop 1 ?raw)])"
    using normalizer_keeps_first_occurrence [of ?raw] by (rule conjunct1)
  also have "\<dots> = [[Str ''ID'', Str ''Name''], [Num (Val 5), Str ''a''], [Num (Val 7), Str ''d'']]"
    by code_simp
  finally show ?thesis .
qed

section \<open>Rows without a numeric key\<close>

lemma dedupLoop_numeric:
  "dedupLoop seen (filter (\<lambda>row. \<not> isNaN (rowKey row)) rows) = dedupLoop seen rows"
  by (induction rows arbitrary: seen) (auto simp add: Let_def rowKey_def)

lemma applyOZ_Cons: "applyOZ (h # rows) = h # filter (\<lambda>row. cellAt row 25 = Str ''ZRAX'') rows"
  by (cases rows) (simp_all add: applyOZ_def)

lemma uniqueData_numeric:
  "uniqueData (h # filter (\<lambda>row. \<not> isNaN (rowKey row)) rows) = uniqueData (h # rows)"
  by (simp add: uniqueData_def dedupLoop_numeric)

lemma uniqueData_OZ_numeric:
  "uniqueData (applyOZ (h # filter (\<lambda>row. \<not> isNaN (rowKey row)) rows)) =
   uniqueData (applyOZ (h # rows))"
proof -
  let ?Z = "\<lambda>row. cellAt row 25 = Str ''ZRAX''"
  let ?N = "\<lambda>row. \<not> isNaN (rowKey row)"
  have "filter ?Z (filter ?N rows) = filter ?N (filter ?Z rows)"
    by (simp add: conj_commute)
  then have "uniqueData (h # filter ?Z (filter ?N rows)) = uniqueData (h # filter ?N (filter ?Z rows))"
    by (rule arg_cong)
  also have "\<dots> = uniqueData (h # filter ?Z rows)"
    by (rule uniqueData_numeric)
  finally show ?thesis
    by (simp only: applyOZ_Cons)
qed

text \<open>
  Claim C7 says that a data row whose first cell cannot be coerced to a number stays in
  the output of the Normalizer. The loop pushes a row only inside the test
  \<^verbatim>\<open>!isNaN(valA) && !seen.has(valA)\<close>, so such a row is gone: with a header and the one
  data row \<open>[abc]\<close>, the output is the header alone.
\<close>

theorem non_numeric_row_does_not_remain:
  "isNaN (Number (Str ''abc''))
   \<and> uniqueData [[Str ''ID''], [Str ''abc'']] = [[Str ''ID'']]
   \<and> normalizer NONE [[Str ''ID''], [Str ''abc'']] = [[Str ''ID'']]"
  by code_simp

text \<open>
  Claim C7, amended. A data row whose first cell cannot be coerced to a number is dropped
  from the output of the Normalizer: the output is the one of the table without these
  rows, and every data row of the output starts with a number.
\<close>

theorem non_numeric_rows_are_dropped:
  "normalizer z (h # filter (\<lambda>row. \<not> isNaN (rowKey row)) rows) = normalizer z (h # rows)
   \<and> (\<forall>row \<in> set (drop 1 (normalizer z rawData)). \<exists>k. cellAt row 0 = Num k \<and> \<not> isNaN k)"
proof
  show "normalizer z (h # filter (\<lambda>row. \<not> isNaN (rowKey row)) rows) = normalizer z (h # rows)"
  proof (cases "z = OZ")
    case True
    then show ?thesis
      by (simp add: normalizer_def uniqueData_OZ_numeric del: filter_filter)
  next
    case False
    then show ?thesis
      by (simp add: normalizer_def uniqueData_numeric)
  qed
next
  show "\<forall>row \<in> set (drop 1 (normalizer z rawData)). \<exists>k. cellAt row 0 = Num k \<and> \<not> isNaN k"
  proof
    fix row
    assume "row \<in> set (drop 1 (normalizer z rawData))"
    then obtain k r where "row = Num k # r" "\<not> isNaN k"
      using normalizer_row_key by blast
    then show "\<exists>k. cellAt row 0 = Num k \<and> \<not> isNaN k"
      by (simp add: cellAt_def)
  qed
qed

theorem non_numeric_rows_are_dropped_witness:
  "[Num (Val 7)] \<in> set (drop 1 (normalizer NONE [[Str ''ID''], [Str ''abc''], [Str ''7'']]))
   \<and> (\<exists>k. cellAt [Num (Val 7)] 0 = Num k \<and> \<not> isNaN k)
   \<and> normalizer NONE [[Str ''ID''], [Str ''7'']] = normalizer NONE [[Str ''ID''], [Str ''abc''], [Str ''7'']]"
proof -
  let ?raw = "[[Str ''ID''], [Str ''abc''], [Str ''7'']]"
  have m: "[Num (Val 7)] \<in> set (drop 1 (normalizer NONE ?raw))"
    by code_simp
  have f: "filter (\<lambda>row. \<not> isNaN (rowKey row)) [[Str ''abc''], [Str ''7'']] = [[Str ''7'']]"
    by code_simp
  have "normalizer NONE ([Str ''ID''] # filter (\<lambda>row. \<not> isNaN (rowKey row)) [[Str ''abc''], [Str ''7'']])
        = normalizer NONE ([Str ''ID''] # [[Str ''abc''], [Str ''7'']])"
    and "\<forall>row \<in> set (drop 1 (normalizer NONE ?raw)). \<exists>k. cellAt row 0 = Num k \<and> \<not> isNaN k"
    using non_numeric_rows_are_dropped [of NONE "[Str ''ID'']" "[[Str ''abc''], [Str ''7'']]" ?raw]
    by blast+
  with m f show ?thesis by simp
qed

section \<open>Blank first cells\<close>






section \<open>The lookups\<close>

text \<open>
  The invariant of the loop over the info sheet: a key that is already seen keeps its
  value, a new key gets column G of the first row that has it.
\<close>

lemma infoLoop_find:
  "infoLoop infoSeen infoLookup rows k =
     (if k \<in> infoSeen \<or> isNaN k then infoLookup k
      else (case find (\<lambda>row. Number (cellAt row 1) = k) rows of
              None \<Rightarrow> infoLookup k
            | Some row \<Rightarrow> Some (cellAt row 6)))"
proof (induction rows arbitrary: infoSeen infoLookup)
  case Nil
  show ?case by simp
next
  case (Cons row rest)
  let ?key = "Number (cellAt row 1)"
  show ?case
  proof (cases "\<not> isNaN ?key \<and> ?key \<notin> infoSeen")
    case True
    then have "infoLoop infoSeen infoLookup (row # rest) k =
        infoLoop (insert ?key infoSeen) (infoLookup(?key \<mapsto> cellAt row 6)) rest k"
      by (simp add: Let_def)
    also have "\<dots> = (if k \<in> insert ?key infoSeen \<or> isNaN k
        then (infoLookup(?key \<mapsto> cellAt row 6)) k
        else (case find (\<lambda>row. Number (cellAt row 1) = k) rest of
                None \<Rightarrow> (infoLookup(?key \<mapsto> cellAt row 6)) k
              | Some row \<Rightarrow> Some (cellAt row 6)))"
      by (rule Cons.IH)
    also have "\<dots> = (if k \<in> infoSeen \<or> isNaN k then infoLookup k
      else (case find (\<lambda>row. Number (cellAt row 1) = k) (row # rest) of
              None \<Rightarrow> infoLookup k
            | Some row \<Rightarrow> Some (cellAt row 6)))"
      using True by (cases "k = ?key") (auto simp add: isNaN_def split: option.splits)
    finally show ?thesis .
  next
    case False
    then have "infoLoop infoSeen infoLookup (row # rest) k = infoLoop infoSeen infoLookup rest k"
      by (auto simp add: Let_def)
    also have "\<dots> = (if k \<in> infoSeen \<or> isNaN k then infoLookup k
        else (case find (\<lambda>row. Number (cellAt row 1) = k) rest of
                None \<Rightarrow> infoLookup k
              | Some row \<Rightarrow> Some (cellAt row 6)))"
      by (rule Cons.IH)
    also have "\<dots> = (if k \<in> infoSeen \<or> isNaN k then infoLookup k
      else (case find (\<lambda>row. Number (cellAt row 1) = k) (row # rest) of
              None \<Rightarrow> infoLookup k
            | Some row \<Rightarrow> Some (cellAt row 6)))"
      using False by (cases "k = ?key") (auto simp add: isNaN_def split: option.splits)
    finally show ?thesis .
  qed
qed

lemma buildInfoLookup_firstSeen:
  "\<not> isNaN k \<Longrightarrow> buildInfoLookup infoData k = firstSeenInfo infoData k"
  by (simp add: buildInfoLookup_def firstSeenInfo_def infoLoop_find split: option.splits)

lemma dupLoop_set:
  "dupLoop dupLookup rows =
     dupLookup \<union> {k \<in> (\<lambda>row. Number (cellAt row 6)) ` set rows. \<not> isNaN k}"
  by (induction rows arbitrary: dupLookup) (auto simp add: Let_def)

lemma buildDupLookup_member:
  "\<not> isNaN k \<Longrightarrow> (k \<in> buildDupLookup dupData) = inDuplicateIndex dupData k"
  by (auto simp add: buildDupLookup_def inDuplicateIndex_def dupLoop_set)

lemma enrichRow_Num:
  "\<not> isNaN k \<Longrightarrow>
   enrichRow (buildInfoLookup infoData) (buildDupLookup dupData) (Num k # r) =
     (Num k # r) @ [nullish (firstSeenInfo infoData k) (Str ''#N/A''),
                    if inDuplicateIndex dupData k then Num k else Str ''#N/A'']"
  by (simp add: enrichRow_def Let_def cellAt_def mapGet_def setHas_def
      buildInfoLookup_firstSeen buildDupLookup_member)

text \<open>
  Claim C4 says that the info cell of an enriched row is the value of the info index for
  the key of the row, and the string \<open>#N/A\<close> only when the key is absent from the
  index. The cell is \<^verbatim>\<open>infoLookup.get(key) ?? '#N/A'\<close>, and the index holds
  \<^verbatim>\<open>row[6]\<close> of the first row of the info table with the key. When that row has no
  cell in column G, the key is in the index with the value \<^verbatim>\<open>undefined\<close>, and the
  cell of the enriched row is \<open>#N/A\<close>, not the value of the index.
\<close>

theorem key_in_index_without_column_G:
  "buildInfoLookup [[Str ''A'', Str ''B'', Str ''C''], [Str '''', Num (Val 1), Str ''short'']]
     (Val 1) = Some Undefined
   \<and> firstSeenInfo [[Str ''A'', Str ''B'', Str ''C''], [Str '''', Num (Val 1), Str ''short'']]
       (Val 1) = Some Undefined
   \<and> enrich
       (buildInfoLookup
          [[Str ''A'', Str ''B'', Str ''C''], [Str '''', Num (Val 1), Str ''short'']])
       (buildDupLookup [])
       (normalizer NONE [[Str ''ID''], [Num (Val 1)]])
     = [[Str ''ID'', Str ''Info_VLOOKUP'', Str ''Dup_VLOOKUP''],
        [Num (Val 1), Str ''#N/A'', Str ''#N/A'']]"
  by code_simp

text \<open>
  Claim C4, amended. Enrichment appends exactly two cells to every data row of the
  normalized table: first the value of the info index for the key of the row, which is
  column G of the first row of the info table with that key, or the string \<open>#N/A\<close> when
  the key is absent from the index or when that first row has no value in column G (no
  cell there, or \<^verbatim>\<open>null\<close>: the test \<open>nullish\<close> of \<^verbatim>\<open>??\<close>); then the key itself when
  it is in the duplicate index, or \<open>#N/A\<close>. The header row gets the two labels
  \<open>Info_VLOOKUP\<close> and \<open>Dup_VLOOKUP\<close>.
\<close>

theorem enrichment_appends_lookups:
  "enrich (buildInfoLookup infoData) (buildDupLookup dupData) (normalizer z rawData) =
     (hd (normalizer z rawData) @ [Str ''Info_VLOOKUP'', Str ''Dup_VLOOKUP''])
     # map (\<lambda>row. row @ [nullish (firstSeenInfo infoData (rowKey row)) (Str ''#N/A''),
                          if inDuplicateIndex dupData (rowKey row) then Num (rowKey row)
                          else Str ''#N/A''])
         (tl (normalizer z rawData))"
proof -
  obtain header dataRows where t: "normalizer z rawData = header # dataRows"
    using normalizer_nonempty [of z rawData] by (cases "normalizer z rawData") auto
  have "enrichRow (buildInfoLookup infoData) (buildDupLookup dupData) row =
        row @ [nullish (firstSeenInfo infoData (rowKey row)) (Str ''#N/A''),
               if inDuplicateIndex dupData (rowKey row) then Num (rowKey row) else Str ''#N/A'']"
    if "row \<in> set dataRows" for row
  proof -
    from that t have "row \<in> set (drop 1 (normalizer z rawData))" by simp
    then obtain k r where "row = Num k # r" "\<not> isNaN k"
      using normalizer_row_key by blast
    then show ?thesis by (simp add: enrichRow_Num)
  qed
  then show ?thesis
    by (simp add: t enrich_def)
qed

text \<open>
  The scenarios of the specification: the info table has no row of key 5, the duplicate
  table has key 7; the info table has key 7 twice, and the first value wins.
\<close>

theorem enrichment_appends_lookups_example:
  "enrich
     (buildInfoLookup
        [[Str ''A'', Str ''B'', Str ''C'', Str ''D'', Str ''E'', Str ''F'', Str ''G''],
         [Str '''', Num (Val 7), Str '''', Str '''', Str '''', Str '''', Str ''CN-1''],
         [Str '''', Str ''7'', Str '''', Str '''', Str '''', Str '''', Str ''JP-2'']])
     (buildDupLookup
        [[Str ''A'', Str ''B'', Str ''C'', Str ''D'', Str ''E'', Str ''F'', Str ''G''],
         [Str '''', Str '''', Str '''', Str '''', Str '''', Str '''', Num (Val 7)]])
     (normalizer NONE [[Str ''ID''], [Num (Val 5)], [Str ''7'']])
   = [[Str ''ID'', Str ''Info_VLOOKUP'', Str ''Dup_VLOOKUP''],
      [Num (Val 5), Str ''#N/A'', Str ''#N/A''],
      [Num (Val 7), Str ''CN-1'', Num (Val 7)]]"
proof -
  let ?info = "[[Str ''A'', Str ''B'', Str ''C'', Str ''D'', Str ''E'', Str ''F'', Str ''G''],
         [Str '''', Num (Val 7), Str '''', Str '''', Str '''', Str '''', Str ''CN-1''],
         [Str '''', Str ''7'', Str '''', Str '''', Str '''', Str '''', Str ''JP-2'']]"
  let ?dup = "[[Str ''A'', Str ''B'', Str ''C'', Str ''D'', Str ''E'', Str ''F'', Str ''G''],
         [Str '''', Str '''', Str '''', Str '''', Str '''', Str '''', Num (Val 7)]]"
  let ?raw = "[[Str ''ID''], [Num (Val 5)], [Str ''7'']]"
  have "enrich (buildInfoLookup ?info) (buildDupLookup ?dup) (normalizer NONE ?raw) =
     (hd (normalizer NONE ?raw) @ [Str ''Info_VLOOKUP'', Str ''Dup_VLOOKUP''])
     # map (\<lambda>row. row @ [nullish (firstSeenInfo ?info (rowKey row)) (Str ''#N/A''),
                          if inDuplicateIndex ?dup (rowKey row) then Num (rowKey row)
                          else Str ''#N/A''])
         (tl (normalizer NONE ?raw))"
    by (rule enrichment_appends_lookups)
  also have "\<dots> = [[Str ''ID'', Str ''Info_VLOOKUP'', Str ''Dup_VLOOKUP''],
      [Num (Val 5), Str ''#N/A'', Str ''#N/A''],
      [Num (Val 7), Str ''CN-1'', Num (Val 7)]]"
    by code_simp
  finally show ?thesis .
qed




section \<open>The empty raw sheet\<close>

text \<open>
  Claim C9 says that the initial processing fails with \<open>EmptySheet\<close> whenever the raw
  table has no rows at all. The error is thrown on \<^verbatim>\<open>!rawWs\<close>, that is when the raw
  workbook has no first worksheet; a worksheet that decodes to no rows goes on with
  \<^verbatim>\<open>header = rawData.length > 0 ? rawData[0] : []\<close>, and the result is a table of
  one header row.
\<close>

theorem empty_table_is_not_an_error:
  "firstSheet \<lparr>SheetNames = [''Sheet1''], Sheets = [''Sheet1'' \<mapsto> []]\<rparr> = Some []
   \<and> runInitialProcessing
       \<lparr>SheetNames = [''Sheet1''], Sheets = [''Sheet1'' \<mapsto> []]\<rparr>
       \<lparr>SheetNames = [''Sheet3''], Sheets = [''Sheet3'' \<mapsto> []]\<rparr>
       \<lparr>SheetNames = [''Master Hold Report''], Sheets = [''Master Hold Report'' \<mapsto> []]\<rparr>
       NONE
     = Inr [[Undefined, Str ''Info_VLOOKUP'', Str ''Dup_VLOOKUP'']]"
  by code_simp

text \<open>
  Claim C9, amended. The initial processing fails with \<open>EmptySheet\<close> exactly when the raw
  workbook has no first worksheet. When the first worksheet is there and has no rows at
  all, and the two other workbooks have a usable worksheet, the result is the table of
  the one header row \<open>[undefined, Info_VLOOKUP, Dup_VLOOKUP]\<close>.
\<close>

theorem EmptySheet_iff_no_first_worksheet:
  "(runInitialProcessing rawWb infoWb dupWb z = Inl EmptySheet) = (firstSheet rawWb = None)
   \<and> (firstSheet rawWb = Some [] \<longrightarrow> findSheet ''sheet3'' infoWb \<noteq> None \<longrightarrow>
        findSheet ''master hold report'' dupWb \<noteq> None \<longrightarrow>
        runInitialProcessing rawWb infoWb dupWb z =
          Inr [[Undefined, Str ''Info_VLOOKUP'', Str ''Dup_VLOOKUP'']])"
proof -
  have n: "normalizer z [] = [[Undefined]]"
    by (cases z) (simp_all add: normalizer_def applyOZ_def uniqueData_def deleteColumns_def
        renameCTR_def cellAt_def)
  show ?thesis
    by (auto simp add: runInitialProcessing_def Let_def n enrich_def split: option.splits)
qed

theorem EmptySheet_iff_no_first_worksheet_witness:
  "firstSheet \<lparr>SheetNames = [], Sheets = Map.empty\<rparr> = None
   \<and> runInitialProcessing \<lparr>SheetNames = [], Sheets = Map.empty\<rparr>
       \<lparr>SheetNames = [''Sheet3''], Sheets = [''Sheet3'' \<mapsto> []]\<rparr>
       \<lparr>SheetNames = [''Master Hold Report''], Sheets = [''Master Hold Report'' \<mapsto> []]\<rparr>
       OZ
     = Inl EmptySheet
   \<and> runInitialProcessing
       \<lparr>SheetNames = [''Data''], Sheets = [''Data'' \<mapsto> []]\<rparr>
       \<lparr>SheetNames = [''Sheet3''], Sheets = [''Sheet3'' \<mapsto> []]\<rparr>
       \<lparr>SheetNames = [''Master Hold Report''], Sheets = [''Master Hold Report'' \<mapsto> []]\<rparr>
       OZ
     = Inr [[Undefined, Str ''Info_VLOOKUP'', Str ''Dup_VLOOKUP'']]"
proof -
  let ?none = "\<lparr>SheetNames = [], Sheets = Map.empty :: string \<rightharpoonup> Table\<rparr>"
  let ?raw = "\<lparr>SheetNames = [''Data''], Sheets = [''Data'' \<mapsto> ([] :: Table)]\<rparr>"
  let ?info = "\<lparr>SheetNames = [''Sheet3''], Sheets = [''Sheet3'' \<mapsto> ([] :: Table)]\<rparr>"
  let ?dup = "\<lparr>SheetNames = [''Master Hold Report''],
               Sheets = [''Master Hold Report'' \<mapsto> ([] :: Table)]\<rparr>"
  have a: "firstSheet ?none = None"
    by (simp add: firstSheet_def)
  have b: "firstSheet ?raw = Some []"
    by (simp add: firstSheet_def)
  have c: "findSheet ''sheet3'' ?info \<noteq> None"
    by code_simp
  have d: "findSheet ''master hold report'' ?dup \<noteq> None"
    by code_simp
  from a have "runInitialProcessing ?none ?info ?dup OZ = Inl EmptySheet"
    using EmptySheet_iff_no_first_worksheet [of ?none ?info ?dup OZ] by blast
  moreover from b c d have "runInitialProcessing ?raw ?info ?dup OZ =
      Inr [[Undefined, Str ''Info_VLOOKUP'', Str ''Dup_VLOOKUP'']]"
    using EmptySheet_iff_no_first_worksheet [of ?raw ?info ?dup OZ] by blast
  ultimately show ?thesis using a by blast
qed

section \<open>Categorization\<close>

text \<open>The invariant of the loop: each bucket grows by the rows of that bucket, in order.\<close>

lemma categorizeLoop_filter:
  "categorizeLoop codes idx rows b =
     \<lparr>cnRows = cnRows b @ filter (\<lambda>row. bucketFor codes idx row = CN) rows,
      jpRows = jpRows b @ filter (\<lambda>row. bucketFor codes idx row = JP) rows,
      specialRows = specialRows b @ filter (\<lambda>row. bucketFor codes idx row = SPECIAL) rows,
      generalRows = generalRows b @ filter (\<lambda>row. bucketFor codes idx row = GENERAL) rows\<rparr>"
proof (induction rows arbitrary: b)
  case Nil
  show ?case by simp
next
  case (Cons row rest)
  show ?case
    by (cases "bucketFor codes idx row")
       (simp_all add: Cons.IH Let_def bucketFor_def list_ex_iff split: if_splits)
qed

lemma categorizeRefs_filter:
  "categorizeRefs codes idx s refs b =
     \<lparr>cnRefs = cnRefs b @ filter (\<lambda>r. bucketFor codes idx (deref s r) = CN) refs,
      jpRefs = jpRefs b @ filter (\<lambda>r. bucketFor codes idx (deref s r) = JP) refs,
      specialRefs = specialRefs b @ filter (\<lambda>r. bucketFor codes idx (deref s r) = SPECIAL) refs,
      generalRefs = generalRefs b @ filter (\<lambda>r. bucketFor codes idx (deref s r) = GENERAL) refs\<rparr>"
proof (induction refs arbitrary: b)
  case Nil
  show ?case by simp
next
  case (Cons r rest)
  show ?case
    by (cases "bucketFor codes idx (deref s r)")
       (simp_all add: Cons.IH Let_def bucketFor_def list_ex_iff split: if_splits)
qed

lemma categorize_filter:
  "categorize idx rows =
     \<lparr>cnRows = filter (\<lambda>row. bucketFor specialCodes idx row = CN) rows,
      jpRows = filter (\<lambda>row. bucketFor specialCodes idx row = JP) rows,
      specialRows = filter (\<lambda>row. bucketFor specialCodes idx row = SPECIAL) rows,
      generalRows = filter (\<lambda>row. bucketFor specialCodes idx row = GENERAL) rows\<rparr>"
  by (simp add: categorize_def categorizeLoop_filter)

lemma four_filters_length:
  "length (filter (\<lambda>x. f x = CN) xs) + length (filter (\<lambda>x. f x = JP) xs)
   + length (filter (\<lambda>x. f x = SPECIAL) xs) + length (filter (\<lambda>x. f x = GENERAL) xs)
   = length xs"
proof (induction xs)
  case Nil
  show ?case by simp
next
  case (Cons x xs)
  then show ?case by (cases "f x") simp_all
qed

lemma four_filters_mset:
  "mset (filter (\<lambda>x. f x = CN) xs) + mset (filter (\<lambda>x. f x = JP) xs)
   + mset (filter (\<lambda>x. f x = SPECIAL) xs) + mset (filter (\<lambda>x. f x = GENERAL) xs)
   = mset xs"
proof (induction xs)
  case Nil
  show ?case by simp
next
  case (Cons x xs)
  then show ?case by (cases "f x") simp_all
qed

text \<open>
  Claim C2 says that a row whose info value has one of the nine codes RU, UA, NI, VE,
  BY, CU, IR, KP, SY, and neither \<open>CN\<close> nor \<open>JP\<close>, goes to the special bucket. The set
  of codes is not the same in every version of the processor: the one of
  \<^verbatim>\<open>src/services/excelProcessor.ts\<close> has the five codes RU, UA, NI, VE, BY, as its
  documentation says, and puts a row of value \<open>CU\<close> in the general bucket.
\<close>

theorem legacy_CU_is_general:
  "generalRefs
     (categorizeRefs specialCodes_legacy 1
        [[Str ''ID'', Str ''Info_VLOOKUP'', Str ''Dup_VLOOKUP''],
         [Num (Val 3), Str ''CU'', Str ''#N/A'']]
        [1] \<lparr>cnRefs = [], jpRefs = [], specialRefs = [], generalRefs = []\<rparr>) = [1]
   \<and> assignAndGenerateExcel_legacy
       [[Str ''ID'', Str ''Info_VLOOKUP'', Str ''Dup_VLOOKUP''],
        [Num (Val 3), Str ''CU'', Str ''#N/A'']]
       [0, 1] [] [] [''Sam''] []
     = Inr ([[Str ''Screener'', Str ''ID'', Str ''Info_VLOOKUP'', Str ''Dup_VLOOKUP''],
             [Str ''UNASSIGNED_GENERAL'', Num (Val 3), Str ''CU'', Str ''#N/A'']],
            [[Str ''Screener'', Str ''ID'', Str ''Info_VLOOKUP'', Str ''Dup_VLOOKUP''],
             [Str ''UNASSIGNED_GENERAL'', Num (Val 3), Str ''CU'', Str ''#N/A'']])"
  by code_simp

text \<open>
  Claim C2, amended. Every row that survives the duplicate filter is placed in exactly
  one of the four buckets, by the first match on its upper-cased info value: \<open>CN\<close>,
  else \<open>JP\<close>, else one of the special codes of the version, else general. The special
  codes are RU, UA, NI, VE, BY, CU, IR, KP, SY in the current version and RU, UA, NI, VE,
  BY in the first one. Each bucket is the list of the rows of that bucket, in their
  order, whether the loop pushes copies of the rows or the rows themselves; the four
  sizes sum to the number of rows, and the four buckets together hold each row as often
  as the input does.
\<close>

theorem categorization_partitions_rows:
  "categorizeLoop codes idx rows \<lparr>cnRows = [], jpRows = [], specialRows = [], generalRows = []\<rparr> =
     \<lparr>cnRows = filter (\<lambda>row. bucketFor codes idx row = CN) rows,
      jpRows = filter (\<lambda>row. bucketFor codes idx row = JP) rows,
      specialRows = filter (\<lambda>row. bucketFor codes idx row = SPECIAL) rows,
      generalRows = filter (\<lambda>row. bucketFor codes idx row = GENERAL) rows\<rparr>
   \<and> categorizeRefs codes idx s refs \<lparr>cnRefs = [], jpRefs = [], specialRefs = [], generalRefs = []\<rparr> =
     \<lparr>cnRefs = filter (\<lambda>r. bucketFor codes idx (deref s r) = CN) refs,
      jpRefs = filter (\<lambda>r. bucketFor codes idx (deref s r) = JP) refs,
      specialRefs = filter (\<lambda>r. bucketFor codes idx (deref s r) = SPECIAL) refs,
      generalRefs = filter (\<lambda>r. bucketFor codes idx (deref s r) = GENERAL) refs\<rparr>
   \<and> length (filter (\<lambda>row. bucketFor codes idx row = CN) rows)
       + length (filter (\<lambda>row. bucketFor codes idx row = JP) rows)
       + length (filter (\<lambda>row. bucketFor codes idx row = SPECIAL) rows)
       + length (filter (\<lambda>row. bucketFor codes idx row = GENERAL) rows)
       = length rows
   \<and> mset (filter (\<lambda>row. bucketFor codes idx row = CN) rows)
       + mset (filter (\<lambda>row. bucketFor codes idx row = JP) rows)
       + mset (filter (\<lambda>row. bucketFor codes idx row = SPECIAL) rows)
       + mset (filter (\<lambda>row. bucketFor codes idx row = GENERAL) rows)
       = mset rows
   \<and> categorize idx rows =
       categorizeLoop [''RU'', ''UA'', ''NI'', ''VE'', ''BY'', ''CU'', ''IR'', ''KP'', ''SY''] idx rows
         \<lparr>cnRows = [], jpRows = [], specialRows = [], generalRows = []\<rparr>
   \<and> specialCodes_legacy = [''RU'', ''UA'', ''NI'', ''VE'', ''BY'']"
proof (intro conjI)
  show "categorizeLoop codes idx rows \<lparr>cnRows = [], jpRows = [], specialRows = [], generalRows = []\<rparr> =
     \<lparr>cnRows = filter (\<lambda>row. bucketFor codes idx row = CN) rows,
      jpRows = filter (\<lambda>row. bucketFor codes idx row = JP) rows,
      specialRows = filter (\<lambda>row. bucketFor codes idx row = SPECIAL) rows,
      generalRows = filter (\<lambda>row. bucketFor codes idx row = GENERAL) rows\<rparr>"
    by (simp add: categorizeLoop_filter)
next
  show "categorizeRefs codes idx s refs \<lparr>cnRefs = [], jpRefs = [], specialRefs = [], generalRefs = []\<rparr> =
     \<lparr>cnRefs = filter (\<lambda>r. bucketFor codes idx (deref s r) = CN) refs,
      jpRefs = filter (\<lambda>r. bucketFor codes idx (deref s r) = JP) refs,
      specialRefs = filter (\<lambda>r. bucketFor codes idx (deref s r) = SPECIAL) refs,
      generalRefs = filter (\<lambda>r. bucketFor codes idx (deref s r) = GENERAL) refs\<rparr>"
    by (simp add: categorizeRefs_filter)
next
  show "length (filter (\<lambda>row. bucketFor codes idx row = CN) rows)
       + length (filter (\<lambda>row. bucketFor codes idx row = JP) rows)
       + length (filter (\<lambda>row. bucketFor codes idx row = SPECIAL) rows)
       + length (filter (\<lambda>row. bucketFor codes idx row = GENERAL) rows)
       = length rows"
    by (rule four_filters_length)
next
  show "mset (filter (\<lambda>row. bucketFor codes idx row = CN) rows)
       + mset (filter (\<lambda>row. bucketFor codes idx row = JP) rows)
       + mset (filter (\<lambda>row. bucketFor codes idx row = SPECIAL) rows)
       + mset (filter (\<lambda>row. bucketFor codes idx row = GENERAL) rows)
       = mset rows"
    by (rule four_filters_mset)
next
  show "categorize idx rows =
       categorizeLoop [''RU'', ''UA'', ''NI'', ''VE'', ''BY'', ''CU'', ''IR'', ''KP'', ''SY''] idx rows
         \<lparr>cnRows = [], jpRows = [], specialRows = [], generalRows = []\<rparr>"
    by (simp add: categorize_def specialCodes_def)
next
  show "specialCodes_legacy = [''RU'', ''UA'', ''NI'', ''VE'', ''BY'']"
    by (rule specialCodes_legacy_def)
qed

text \<open>
  With the nine codes: a value with both \<open>JP\<close> and \<open>CN\<close> goes to the CN bucket, the
  match ignores case, and \<open>cu\<close> is special.
\<close>

theorem categorization_partitions_rows_example:
  "categorize 1 [[Num (Val 1), Str ''jp-cn''], [Num (Val 2), Str ''Jp''],
                 [Num (Val 3), Str ''cu''], [Num (Val 4), Str ''#N/A''],
                 [Num (Val 5), Str ''xCNx'']]
     = \<lparr>cnRows = [[Num (Val 1), Str ''jp-cn''], [Num (Val 5), Str ''xCNx'']],
        jpRows = [[Num (Val 2), Str ''Jp'']],
        specialRows = [[Num (Val 3), Str ''cu'']],
        generalRows = [[Num (Val 4), Str ''#N/A'']]\<rparr>"
proof -
  let ?rows = "[[Num (Val 1), Str ''jp-cn''], [Num (Val 2), Str ''Jp''],
                [Num (Val 3), Str ''cu''], [Num (Val 4), Str ''#N/A''],
                [Num (Val 5), Str ''xCNx'']]"
  let ?codes = "[''RU'', ''UA'', ''NI'', ''VE'', ''BY'', ''CU'', ''IR'', ''KP'', ''SY'']"
  have "categorize 1 ?rows =
      categorizeLoop ?codes 1 ?rows \<lparr>cnRows = [], jpRows = [], specialRows = [], generalRows = []\<rparr>"
    using categorization_partitions_rows [of ?codes 1 ?rows] by blast
  also have "\<dots> =
     \<lparr>cnRows = filter (\<lambda>row. bucketFor ?codes 1 row = CN) ?rows,
      jpRows = filter (\<lambda>row. bucketFor ?codes 1 row = JP) ?rows,
      specialRows = filter (\<lambda>row. bucketFor ?codes 1 row = SPECIAL) ?rows,
      generalRows = filter (\<lambda>row. bucketFor ?codes 1 row = GENERAL) ?rows\<rparr>"
    using categorization_partitions_rows [of ?codes 1 ?rows] by blast
  also have "\<dots> = \<lparr>cnRows = [[Num (Val 1), Str ''jp-cn''], [Num (Val 5), Str ''xCNx'']],
        jpRows = [[Num (Val 2), Str ''Jp'']],
        specialRows = [[Num (Val 3), Str ''cu'']],
        generalRows = [[Num (Val 4), Str ''#N/A'']]\<rparr>"
    by code_simp
  finally show ?thesis .
qed

section \<open>Assignment\<close>

lemma assignBucket_length: "length (assignBucket names sentinel rows) = length rows"
  by (simp add: assignBucket_def)

lemma assignBucket_nth:
  "i < length rows \<Longrightarrow>
   assignBucket names sentinel rows ! i =
     Str (if names = [] then sentinel else names ! (i mod length names)) # rows ! i"
  by (simp add: assignBucket_def nth_enumerate_eq)

lemma assignBucket_tl: "map tl (assignBucket names sentinel rows) = rows"
  by (auto simp add: assignBucket_def enumerate_eq_zip intro!: nth_equalityI)

lemma assignBucket_first:
  "row \<in> set (assignBucket names sentinel rows) \<Longrightarrow> \<exists>name r. row = Str name # r"
  by (auto simp add: assignBucket_def split: if_splits)

text \<open>
  Claim C1. The result of \<open>processAndAssign\<close> is the four buckets of the categorization
  one after the other, each assigned with its own list of names and its own sentinel
  \<open>UNASSIGNED_CN\<close>, \<open>UNASSIGNED_JP\<close>, \<open>UNASSIGNED_SPECIAL\<close>, \<open>UNASSIGNED_GENERAL\<close>. An
  assigned bucket has the rows of the bucket in their order, and the row at position
  \<open>i\<close> has a new first cell: \<open>names[i mod m]\<close> when the list of \<open>m\<close> names is not
  empty, the sentinel when it is. A bucket of three rows with the names Alice, Bob gets
  Alice, Bob, Alice.
\<close>

theorem round_robin_assignment:
  "(processAndAssign header cnAssignees jpAssignees specialAssignees generalAssignees rows
      = Inr out \<longrightarrow>
      (\<exists>idx. findIndex (\<lambda>h. h = Str ''Info_VLOOKUP'') header = Some idx
         \<and> out = assignBucket cnAssignees ''UNASSIGNED_CN'' (cnRows (categorize idx rows))
               @ assignBucket jpAssignees ''UNASSIGNED_JP'' (jpRows (categorize idx rows))
               @ assignBucket specialAssignees ''UNASSIGNED_SPECIAL''
                   (specialRows (categorize idx rows))
               @ assignBucket generalAssignees ''UNASSIGNED_GENERAL''
                   (generalRows (categorize idx rows))))
   \<and> length (assignBucket names sentinel bucketRows) = length bucketRows
   \<and> (\<forall>i < length bucketRows.
         assignBucket names sentinel bucketRows ! i =
           Str (if names = [] then sentinel else names ! (i mod length names))
           # bucketRows ! i)
   \<and> assignBucket [''Alice'', ''Bob''] ''UNASSIGNED_CN'' [r0, r1, r2] =
        [Str ''Alice'' # r0, Str ''Bob'' # r1, Str ''Alice'' # r2]"
proof (intro conjI impI allI)
  assume "processAndAssign header cnAssignees jpAssignees specialAssignees generalAssignees rows
      = Inr out"
  then show "\<exists>idx. findIndex (\<lambda>h. h = Str ''Info_VLOOKUP'') header = Some idx
         \<and> out = assignBucket cnAssignees ''UNASSIGNED_CN'' (cnRows (categorize idx rows))
               @ assignBucket jpAssignees ''UNASSIGNED_JP'' (jpRows (categorize idx rows))
               @ assignBucket specialAssignees ''UNASSIGNED_SPECIAL''
                   (specialRows (categorize idx rows))
               @ assignBucket generalAssignees ''UNASSIGNED_GENERAL''
                   (generalRows (categorize idx rows))"
    by (auto simp add: processAndAssign_def Let_def split: option.splits)
next
  show "length (assignBucket names sentinel bucketRows) = length bucketRows"
    by (rule assignBucket_length)
next
  fix i
  assume "i < length bucketRows"
  then show "assignBucket names sentinel bucketRows ! i =
           Str (if names = [] then sentinel else names ! (i mod length names))
           # bucketRows ! i"
    by (rule assignBucket_nth)
next
  show "assignBucket [''Alice'', ''Bob''] ''UNASSIGNED_CN'' [r0, r1, r2] =
        [Str ''Alice'' # r0, Str ''Bob'' # r1, Str ''Alice'' # r2]"
    by (simp add: assignBucket_def enumerate_eq_zip upt_rec)
qed

text \<open>
  Three CN rows and one general row, with the names Alice and Bob for CN and no name for
  the general bucket.
\<close>

theorem round_robin_assignment_witness:
  "processAndAssign [Str ''ID'', Str ''Info_VLOOKUP''] [''Alice'', ''Bob''] [] [] []
     [[Num (Val 1), Str ''CN''], [Num (Val 2), Str ''x''], [Num (Val 3), Str ''cn''],
      [Num (Val 4), Str ''CN-A'']]
     = Inr [[Str ''Alice'', Num (Val 1), Str ''CN''], [Str ''Bob'', Num (Val 3), Str ''cn''],
            [Str ''Alice'', Num (Val 4), Str ''CN-A''],
            [Str ''UNASSIGNED_GENERAL'', Num (Val 2), Str ''x'']]
   \<and> (\<exists>idx. findIndex (\<lambda>h. h = Str ''Info_VLOOKUP'') [Str ''ID'', Str ''Info_VLOOKUP''] = Some idx)
   \<and> assignBucket [''Alice'', ''Bob''] ''UNASSIGNED_CN''
        [[Num (Val 1), Str ''CN''], [Num (Val 3), Str ''cn''], [Num (Val 4), Str ''CN-A'']] ! 2
     = [Str ''Alice'', Num (Val 4), Str ''CN-A'']"
proof -
  let ?header = "[Str ''ID'', Str ''Info_VLOOKUP'']"
  let ?rows = "[[Num (Val 1), Str ''CN''], [Num (Val 2), Str ''x''], [Num (Val 3), Str ''cn''],
      [Num (Val 4), Str ''CN-A'']]"
  let ?out = "[[Str ''Alice'', Num (Val 1), Str ''CN''], [Str ''Bob'', Num (Val 3), Str ''cn''],
            [Str ''Alice'', Num (Val 4), Str ''CN-A''],
            [Str ''UNASSIGNED_GENERAL'', Num (Val 2), Str ''x'']]"
  let ?bucket = "[[Num (Val 1), Str ''CN''], [Num (Val 3), Str ''cn''], [Num (Val 4), Str ''CN-A'']]"
  have e: "processAndAssign ?header [''Alice'', ''Bob''] [] [] [] ?rows = Inr ?out"
    by code_simp
  have l: "2 < length ?bucket"
    by simp
  have x: "\<exists>idx. findIndex (\<lambda>h. h = Str ''Info_VLOOKUP'') ?header = Some idx"
    using round_robin_assignment [of ?header "[''Alice'', ''Bob'']" "[]" "[]" "[]" ?rows ?out] e
    by blast
  have "assignBucket [''Alice'', ''Bob''] ''UNASSIGNED_CN'' ?bucket ! 2 =
      Str (if [''Alice'', ''Bob''] = [] then ''UNASSIGNED_CN''
           else [''Alice'', ''Bob''] ! (2 mod length [''Alice'', ''Bob''])) # ?bucket ! 2"
    using round_robin_assignment [where names = "[''Alice'', ''Bob'']"
        and sentinel = "''UNASSIGNED_CN''" and bucketRows = ?bucket] l
    by blast
  also have "\<dots> = [Str ''Alice'', Num (Val 4), Str ''CN-A'']"
    by code_simp
  finally have b: "assignBucket [''Alice'', ''Bob''] ''UNASSIGNED_CN'' ?bucket ! 2 =
      [Str ''Alice'', Num (Val 4), Str ''CN-A'']" .
  from e x b show ?thesis by (intro conjI)
qed

section \<open>The duplicate filter and the final sheet\<close>

lemma processAndAssign_rows:
  assumes "processAndAssign header cn jp sp gen rows = Inr out"
  shows "mset (map tl out) = mset rows" and "\<forall>row \<in> set out. \<exists>name r. row = Str name # r"
proof -
  from assms obtain idx where
    out: "out = assignBucket cn ''UNASSIGNED_CN'' (cnRows (categorize idx rows))
               @ assignBucket jp ''UNASSIGNED_JP'' (jpRows (categorize idx rows))
               @ assignBucket sp ''UNASSIGNED_SPECIAL'' (specialRows (categorize idx rows))
               @ assignBucket gen ''UNASSIGNED_GENERAL'' (generalRows (categorize idx rows))"
    by (auto simp add: processAndAssign_def Let_def split: option.splits)
  show "mset (map tl out) = mset rows"
    using four_filters_mset [of "bucketFor specialCodes idx" rows]
    by (simp add: out assignBucket_tl categorize_filter add.assoc)
  show "\<forall>row \<in> set out. \<exists>name r. row = Str name # r"
    unfolding out using assignBucket_first by auto
qed

lemma finalAssignedRows_rows:
  assumes "finalAssignedRows header cn jp sp gen z rows = Inr out"
  shows "mset (map tl out) = mset rows" and "\<forall>row \<in> set out. \<exists>name r. row = Str name # r"
proof -
  show "mset (map tl out) = mset rows"
  proof (cases "z = ZOP")
    case True
    with assms obtain az ao where
      az: "processAndAssign header cn jp sp gen (filter isZrax rows) = Inr az" and
      ao: "processAndAssign header cn jp sp gen (filter (\<lambda>row. \<not> isZrax row) rows) = Inr ao" and
      out: "out = az @ ao"
      by (auto simp add: finalAssignedRows_def Let_def split: sum.splits)
    have "mset (map tl out) =
        mset (filter isZrax rows) + mset (filter (\<lambda>row. \<not> isZrax row) rows)"
      by (simp only: out map_append mset_append processAndAssign_rows(1) [OF az]
          processAndAssign_rows(1) [OF ao])
    then show ?thesis by simp
  next
    case False
    with assms have "processAndAssign header cn jp sp gen rows = Inr out"
      by (simp add: finalAssignedRows_def)
    then show ?thesis by (rule processAndAssign_rows(1))
  qed
  show "\<forall>row \<in> set out. \<exists>name r. row = Str name # r"
  proof (cases "z = ZOP")
    case True
    with assms obtain az ao where
      az: "processAndAssign header cn jp sp gen (filter isZrax rows) = Inr az" and
      ao: "processAndAssign header cn jp sp gen (filter (\<lambda>row. \<not> isZrax row) rows) = Inr ao" and
      out: "out = az @ ao"
      by (auto simp add: finalAssignedRows_def Let_def split: sum.splits)
    show ?thesis
      using processAndAssign_rows(2) [OF az] processAndAssign_rows(2) [OF ao]
      by (auto simp add: out)
  next
    case False
    with assms have "processAndAssign header cn jp sp gen rows = Inr out"
      by (simp add: finalAssignedRows_def)
    then show ?thesis by (rule processAndAssign_rows(2))
  qed
qed

text \<open>What a call that succeeds on a table with data rows has computed.\<close>

lemma assign_success:
  assumes "assignAndGenerateExcel lc pd cn jp sp gen z = Inr res" and "2 \<le> length pd"
  obtains dupIdx assigned where
    "findIndex (\<lambda>h. h = Str ''Dup_VLOOKUP'') (pd ! 0) = Some dupIdx"
    "finalAssignedRows (pd ! 0) cn jp sp gen z (filterRows dupIdx (drop 1 pd)) = Inr assigned"
    "pivotData res = pivotOf lc assigned"
    "fileData res =
       (Str ''Screener'' # removeCTR (findIndex (\<lambda>h. h = Str ''CTR'') (pd ! 0)) 0 (pd ! 0))
       # map (removeCTR (findIndex (\<lambda>h. h = Str ''CTR'') (pd ! 0)) 1) assigned"
  using assms
  by (auto simp add: assignAndGenerateExcel_def Let_def split: option.splits sum.splits if_splits)

lemma removeCTR_owner: "removeCTR c (Suc 0) (owner # r) = owner # removeCTR c 0 r"
  by (simp add: removeCTR_def splice1_def split: option.splits)

lemma map_tl_removeCTR:
  assumes "\<forall>row \<in> set rows. \<exists>name r. row = Str name # r"
  shows "map tl (map (removeCTR c (Suc 0)) rows) = map (removeCTR c 0) (map tl rows)"
  using assms by (induction rows) (auto simp add: removeCTR_owner)

lemma map_screenerOf_removeCTR:
  assumes "\<forall>row \<in> set rows. \<exists>name r. row = Str name # r"
  shows "map screenerOf (map (removeCTR c (Suc 0)) rows) = map screenerOf rows"
  using assms by (induction rows) (auto simp add: removeCTR_owner screenerOf_def cellAt_def)

lemma findIndex_append_fresh:
  "x \<notin> set xs \<Longrightarrow>
   findIndex (\<lambda>h. h = x) (xs @ [y, x]) =
     (if y = x then Some (length xs) else Some (length xs + 1))"
  by (induction xs) auto

text \<open>
  Claim C3. The assignment step retains a data row exactly when the cell of the row in
  the column \<open>Dup_VLOOKUP\<close> is the string \<open>#N/A\<close>: the data rows of the final sheet,
  without their owner cell, are the rows that pass this test, each once, with the column
  \<open>CTR\<close> cut out. In particular the enriched row of a key that is in the duplicate
  index holds the key in that column, and the filter drops it.
\<close>

theorem filter_keeps_unresolved_rows:
  "(assignAndGenerateExcel lc pd cn jp sp gen z = Inr res \<and> 2 \<le> length pd \<longrightarrow>
      (\<exists>dupIdx. findIndex (\<lambda>h. h = Str ''Dup_VLOOKUP'') (pd ! 0) = Some dupIdx
         \<and> mset (map tl (drop 1 (fileData res))) =
             mset (map (removeCTR (findIndex (\<lambda>h. h = Str ''CTR'') (pd ! 0)) 0)
                     (filter (\<lambda>row. cellAt row dupIdx = Str ''#N/A'') (drop 1 pd)))))
   \<and> (Str ''Dup_VLOOKUP'' \<notin> set hdr \<and> length row = length hdr
        \<and> setHas dupLookup (cellAt row 0) \<longrightarrow>
        findIndex (\<lambda>h. h = Str ''Dup_VLOOKUP'') (hdr @ [Str ''Info_VLOOKUP'', Str ''Dup_VLOOKUP''])
          = Some (length hdr + 1)
        \<and> filterRows (length hdr + 1) [enrichRow infoLookup dupLookup row] = [])"
proof (intro conjI impI)
  assume a: "assignAndGenerateExcel lc pd cn jp sp gen z = Inr res \<and> 2 \<le> length pd"
  then obtain dupIdx assigned where
    d: "findIndex (\<lambda>h. h = Str ''Dup_VLOOKUP'') (pd ! 0) = Some dupIdx" and
    f: "finalAssignedRows (pd ! 0) cn jp sp gen z (filterRows dupIdx (drop 1 pd)) = Inr assigned" and
    fd: "fileData res =
       (Str ''Screener'' # removeCTR (findIndex (\<lambda>h. h = Str ''CTR'') (pd ! 0)) 0 (pd ! 0))
       # map (removeCTR (findIndex (\<lambda>h. h = Str ''CTR'') (pd ! 0)) 1) assigned"
    by (blast elim: assign_success)
  let ?c = "findIndex (\<lambda>h. h = Str ''CTR'') (pd ! 0)"
  have "map tl (drop 1 (fileData res)) = map (removeCTR ?c 0) (map tl assigned)"
    using finalAssignedRows_rows(2) [OF f] by (simp add: fd map_tl_removeCTR del: map_map)
  then have "mset (map tl (drop 1 (fileData res))) = mset (map (removeCTR ?c 0) (map tl assigned))"
    by (rule arg_cong)
  also have "\<dots> = image_mset (removeCTR ?c 0) (mset (map tl assigned))"
    by (simp only: mset_map)
  also have "mset (map tl assigned) = mset (filterRows dupIdx (drop 1 pd))"
    by (rule finalAssignedRows_rows(1) [OF f])
  also have "image_mset (removeCTR ?c 0) (mset (filterRows dupIdx (drop 1 pd))) =
      mset (map (removeCTR ?c 0) (filter (\<lambda>row. cellAt row dupIdx = Str ''#N/A'') (drop 1 pd)))"
    by (simp only: mset_map filterRows_def)
  finally have "mset (map tl (drop 1 (fileData res))) =
      mset (map (removeCTR ?c 0) (filter (\<lambda>row. cellAt row dupIdx = Str ''#N/A'') (drop 1 pd)))" .
  with d show "\<exists>dupIdx. findIndex (\<lambda>h. h = Str ''Dup_VLOOKUP'') (pd ! 0) = Some dupIdx
         \<and> mset (map tl (drop 1 (fileData res))) =
             mset (map (removeCTR (findIndex (\<lambda>h. h = Str ''CTR'') (pd ! 0)) 0)
                     (filter (\<lambda>row. cellAt row dupIdx = Str ''#N/A'') (drop 1 pd)))"
    by blast
next
  assume "Str ''Dup_VLOOKUP'' \<notin> set hdr \<and> length row = length hdr
        \<and> setHas dupLookup (cellAt row 0)"
  then show "findIndex (\<lambda>h. h = Str ''Dup_VLOOKUP'')
        (hdr @ [Str ''Info_VLOOKUP'', Str ''Dup_VLOOKUP'']) = Some (length hdr + 1)"
    by (simp add: findIndex_append_fresh)
next
  assume a: "Str ''Dup_VLOOKUP'' \<notin> set hdr \<and> length row = length hdr
        \<and> setHas dupLookup (cellAt row 0)"
  then have len: "length row = length hdr" and has: "setHas dupLookup (cellAt row 0)"
    by simp_all
  from has obtain n where n: "cellAt row 0 = Num n"
    by (cases "cellAt row 0") (simp_all add: setHas_def)
  have "enrichRow infoLookup dupLookup row =
        row @ [nullish (mapGet infoLookup (Num n)) (Str ''#N/A''), Num n]"
    using has by (simp add: enrichRow_def Let_def n)
  then have "cellAt (enrichRow infoLookup dupLookup row) (length hdr + 1) = Num n"
    by (simp add: cellAt_def len [symmetric] nth_append)
  then show "filterRows (length hdr + 1) [enrichRow infoLookup dupLookup row] = []"
    by (simp add: filterRows_def)
qed

text \<open>
  A table of three data rows: the row of key 7 holds its key in the column \<open>Dup_VLOOKUP\<close>
  and is not in the final sheet; the two others are, without the column \<open>CTR\<close>.
\<close>

theorem filter_keeps_unresolved_rows_witness:
  "assignAndGenerateExcel lexCompare
     [[Str ''ID'', Str ''CTR'', Str ''Info_VLOOKUP'', Str ''Dup_VLOOKUP''],
      [Num (Val 1), Str ''c1'', Str ''CN'', Str ''#N/A''],
      [Num (Val 7), Str ''c7'', Str ''JP'', Num (Val 7)],
      [Num (Val 2), Str ''c2'', Str ''JP'', Str ''#N/A'']]
     [''Alice''] [] [] [] NONE
   = Inr \<lparr>fileData = [[Str ''Screener'', Str ''ID'', Str ''Info_VLOOKUP'', Str ''Dup_VLOOKUP''],
                       [Str ''Alice'', Num (Val 1), Str ''CN'', Str ''#N/A''],
                       [Str ''UNASSIGNED_JP'', Num (Val 2), Str ''JP'', Str ''#N/A'']],
          pivotData = [\<lparr>screener = ''Alice'', rowCount = 1\<rparr>,
                       \<lparr>screener = ''UNASSIGNED_JP'', rowCount = 1\<rparr>]\<rparr>
   \<and> (\<exists>dupIdx.
        findIndex (\<lambda>h. h = Str ''Dup_VLOOKUP'')
          [Str ''ID'', Str ''CTR'', Str ''Info_VLOOKUP'', Str ''Dup_VLOOKUP''] = Some dupIdx
        \<and> mset [[Num (Val 1), Str ''CN'', Str ''#N/A''], [Num (Val 2), Str ''JP'', Str ''#N/A'']] =
            mset (map (removeCTR (Some 1) 0)
                    (filter (\<lambda>row. cellAt row dupIdx = Str ''#N/A'')
                       [[Num (Val 1), Str ''c1'', Str ''CN'', Str ''#N/A''],
                        [Num (Val 7), Str ''c7'', Str ''JP'', Num (Val 7)],
                        [Num (Val 2), Str ''c2'', Str ''JP'', Str ''#N/A'']])))
   \<and> filterRows 2 [enrichRow Map.empty {Val 7} [Num (Val 7)]] = []"
proof -
  let ?pd = "[[Str ''ID'', Str ''CTR'', Str ''Info_VLOOKUP'', Str ''Dup_VLOOKUP''],
      [Num (Val 1), Str ''c1'', Str ''CN'', Str ''#N/A''],
      [Num (Val 7), Str ''c7'', Str ''JP'', Num (Val 7)],
      [Num (Val 2), Str ''c2'', Str ''JP'', Str ''#N/A'']]"
  let ?res = "\<lparr>fileData = [[Str ''Screener'', Str ''ID'', Str ''Info_VLOOKUP'', Str ''Dup_VLOOKUP''],
                       [Str ''Alice'', Num (Val 1), Str ''CN'', Str ''#N/A''],
                       [Str ''UNASSIGNED_JP'', Num (Val 2), Str ''JP'', Str ''#N/A'']],
          pivotData = [\<lparr>screener = ''Alice'', rowCount = 1\<rparr>,
                       \<lparr>screener = ''UNASSIGNED_JP'', rowCount = 1\<rparr>]\<rparr>"
  have e: "assignAndGenerateExcel lexCompare ?pd [''Alice''] [] [] [] NONE = Inr ?res"
    by code_simp
  have l: "2 \<le> length ?pd"
    by simp
  have c: "findIndex (\<lambda>h. h = Str ''CTR'') (?pd ! 0) = Some 1"
    by simp
  have "\<exists>dupIdx. findIndex (\<lambda>h. h = Str ''Dup_VLOOKUP'') (?pd ! 0) = Some dupIdx
         \<and> mset (map tl (drop 1 (fileData ?res))) =
             mset (map (removeCTR (findIndex (\<lambda>h. h = Str ''CTR'') (?pd ! 0)) 0)
                     (filter (\<lambda>row. cellAt row dupIdx = Str ''#N/A'') (drop 1 ?pd)))"
    using filter_keeps_unresolved_rows [of lexCompare ?pd "[''Alice'']" "[]" "[]" "[]" NONE ?res] e l
    by blast
  then have a: "\<exists>dupIdx.
        findIndex (\<lambda>h. h = Str ''Dup_VLOOKUP'')
          [Str ''ID'', Str ''CTR'', Str ''Info_VLOOKUP'', Str ''Dup_VLOOKUP''] = Some dupIdx
        \<and> mset [[Num (Val 1), Str ''CN'', Str ''#N/A''], [Num (Val 2), Str ''JP'', Str ''#N/A'']] =
            mset (map (removeCTR (Some 1) 0)
                    (filter (\<lambda>row. cellAt row dupIdx = Str ''#N/A'')
                       [[Num (Val 1), Str ''c1'', Str ''CN'', Str ''#N/A''],
                        [Num (Val 7), Str ''c7'', Str ''JP'', Num (Val 7)],
                        [Num (Val 2), Str ''c2'', Str ''JP'', Str ''#N/A'']]))"
    unfolding c by simp
  have h: "Str ''Dup_VLOOKUP'' \<notin> set [Str ''ID''] \<and> length [Num (Val 7)] = length [Str ''ID'']
      \<and> setHas {Val 7} (cellAt [Num (Val 7)] 0)"
    by (simp add: setHas_def cellAt_def)
  have "filterRows (length [Str ''ID''] + 1) [enrichRow Map.empty {Val 7} [Num (Val 7)]] = []"
    using filter_keeps_unresolved_rows [where hdr = "[Str ''ID'']" and row = "[Num (Val 7)]"
        and dupLookup = "{Val 7}" and infoLookup = Map.empty] h
    by blast
  then have b: "filterRows 2 [enrichRow Map.empty {Val 7} [Num (Val 7)]] = []"
    by (simp add: numeral_2_eq_2)
  from e a b show ?thesis by (intro conjI)
qed

section \<open>The pivot\<close>

lemma countScreener_names:
  "fst ` set (countScreener s m) = insert s (fst ` set m)"
proof (induction m)
  case Nil
  show ?case by simp
next
  case (Cons e m)
  obtain name n where e: "e = (name, n)" by (cases e)
  show ?case
    by (cases "name = s") (simp_all add: e Cons.IH insert_commute)
qed

lemma countScreener_distinct:
  "distinct (map fst m) \<Longrightarrow> distinct (map fst (countScreener s m))"
proof (induction m)
  case Nil
  show ?case by simp
next
  case (Cons e m)
  obtain name n where e: "e = (name, n)" by (cases e)
  show ?case
  proof (cases "name = s")
    case True
    with Cons.prems show ?thesis by (simp add: e)
  next
    case False
    with Cons show ?thesis
      by (simp add: e countScreener_names)
  qed
qed

lemma countScreener_sum:
  "sum_list (map snd (countScreener s m)) = Suc (sum_list (map snd m))"
  by (induction m) auto

lemma countScreener_map_of:
  "map_of (countScreener s m) name =
     (if name = s then Some (case map_of m s of None \<Rightarrow> 1 | Some n \<Rightarrow> n + 1)
      else map_of m name)"
  by (induction m) auto

lemma tally_Nil [simp]: "tally m [] = m"
  by (simp add: tally_def)

lemma tally_Cons [simp]: "tally m (row # rows) = tally (countScreener (screenerOf row) m) rows"
  by (simp add: tally_def)

lemma tally_names: "fst ` set (tally m rows) = fst ` set m \<union> screenerOf ` set rows"
  by (induction rows arbitrary: m) (simp_all add: countScreener_names)

lemma tally_distinct: "distinct (map fst m) \<Longrightarrow> distinct (map fst (tally m rows))"
  by (induction rows arbitrary: m) (simp_all add: countScreener_distinct)

lemma tally_sum: "sum_list (map snd (tally m rows)) = sum_list (map snd m) + length rows"
  by (induction rows arbitrary: m) (simp_all add: countScreener_sum)

text \<open>The invariant of the tally: every name has its count so far plus its rows.\<close>

lemma tally_map_of:
  "map_of (tally m rows) name =
     (case map_of m name of
        None \<Rightarrow> (if length (filter (\<lambda>row. screenerOf row = name) rows) = 0 then None
                  else Some (length (filter (\<lambda>row. screenerOf row = name) rows)))
      | Some n \<Rightarrow> Some (n + length (filter (\<lambda>row. screenerOf row = name) rows)))"
proof (induction rows arbitrary: m)
  case Nil
  show ?case by (simp split: option.splits)
next
  case (Cons row rows)
  show ?case
    by (simp add: Cons.IH countScreener_map_of split: option.splits)
qed

lemma screenerCounts_tally: "screenerCounts rows = tally [] rows"
  by (simp add: screenerCounts_def tally_def)

lemma screenerCounts_entry:
  assumes "(name, n) \<in> set (screenerCounts rows)"
  shows "n = length (filter (\<lambda>row. screenerOf row = name) rows) \<and> 0 < n"
proof -
  have d: "distinct (map fst (screenerCounts rows))"
    by (simp add: screenerCounts_tally tally_distinct)
  with assms have "map_of (screenerCounts rows) name = Some n"
    by simp
  then have "n = length (filter (\<lambda>row. screenerOf row = name) rows)"
    and "length (filter (\<lambda>row. screenerOf row = name) rows) \<noteq> 0"
    by (simp_all add: screenerCounts_tally tally_map_of split: if_splits)
  then show ?thesis by simp
qed

lemma insertBy_mset: "mset (insertBy cmp x ys) = add_mset x (mset ys)"
  by (induction ys) auto

lemma foldl_insertBy_mset:
  "mset (foldl (\<lambda>sorted x. insertBy cmp x sorted) acc xs) = mset acc + mset xs"
  by (induction xs arbitrary: acc) (auto simp add: insertBy_mset)

lemma sortBy_mset: "mset (sortBy cmp xs) = mset xs"
  by (simp add: sortBy_def foldl_insertBy_mset)

lemma insertBy_set: "set (insertBy cmp x ys) = insert x (set ys)"
  by (induction ys) auto

text \<open>
  Insertion keeps a list sorted when being less is asymmetric and transitive: no element
  is less than one before it.
\<close>

lemma insertBy_sorted:
  assumes asym: "\<And>a b. cmp a b < 0 \<Longrightarrow> \<not> cmp b a < 0"
    and trans: "\<And>a b c. cmp a b < 0 \<Longrightarrow> cmp b c < 0 \<Longrightarrow> cmp a c < 0"
    and "sorted_wrt (\<lambda>a b. \<not> cmp b a < 0) ys"
  shows "sorted_wrt (\<lambda>a b. \<not> cmp b a < 0) (insertBy cmp x ys)"
  using assms(3)
proof (induction ys)
  case Nil
  show ?case by simp
next
  case (Cons y ys)
  show ?case
  proof (cases "cmp x y < 0")
    case True
    have "\<not> cmp z x < 0" if "z \<in> set ys" for z
    proof
      assume "cmp z x < 0"
      then have "cmp z y < 0" using True by (rule trans)
      moreover have "\<not> cmp z y < 0" using Cons.prems that by simp
      ultimately show False by simp
    qed
    with True Cons.prems show ?thesis
      by (auto dest: asym)
  next
    case False
    with Cons show ?thesis
      by (auto simp add: insertBy_set)
  qed
qed

lemma foldl_insertBy_sorted:
  assumes asym: "\<And>a b. cmp a b < 0 \<Longrightarrow> \<not> cmp b a < 0"
    and trans: "\<And>a b c. cmp a b < 0 \<Longrightarrow> cmp b c < 0 \<Longrightarrow> cmp a c < 0"
  shows "sorted_wrt (\<lambda>a b. \<not> cmp b a < 0) acc \<Longrightarrow>
         sorted_wrt (\<lambda>a b. \<not> cmp b a < 0) (foldl (\<lambda>sorted x. insertBy cmp x sorted) acc xs)"
proof (induction xs arbitrary: acc)
  case Nil
  then show ?case by simp
next
  case (Cons x xs)
  have "sorted_wrt (\<lambda>a b. \<not> cmp b a < 0) (insertBy cmp x acc)"
    using asym trans Cons.prems by (rule insertBy_sorted)
  then show ?case by (simp add: Cons.IH)
qed

lemma sortBy_sorted:
  assumes "\<And>a b. cmp a b < 0 \<Longrightarrow> \<not> cmp b a < 0"
    and "\<And>a b c. cmp a b < 0 \<Longrightarrow> cmp b c < 0 \<Longrightarrow> cmp a c < 0"
  shows "sorted_wrt (\<lambda>a b. \<not> cmp b a < 0) (sortBy cmp xs)"
proof -
  have "sorted_wrt (\<lambda>a b. \<not> cmp b a < 0) []" by simp
  with assms show ?thesis
    unfolding sortBy_def by (rule foldl_insertBy_sorted)
qed

lemma pivotOf_props:
  "distinct (map screener (pivotOf lc rows))"
  "set (map screener (pivotOf lc rows)) = screenerOf ` set rows"
  "\<forall>e \<in> set (pivotOf lc rows).
      rowCount e = length (filter (\<lambda>row. screenerOf row = screener e) rows) \<and> 0 < rowCount e"
  "sum_list (map rowCount (pivotOf lc rows)) = length rows"
  "consistentCompare lc \<Longrightarrow>
     sorted_wrt (\<lambda>a b. lc (screener a) (screener b) \<le> 0) (pivotOf lc rows)"
proof -
  let ?entries = "map (\<lambda>(name, n). \<lparr>screener = name, rowCount = n\<rparr>) (screenerCounts rows)"
  let ?cmp = "\<lambda>a b. lc (screener a) (screener b)"
  have m: "mset (pivotOf lc rows) = mset ?entries"
    by (simp add: pivotOf_def sortBy_mset)
  have names: "map screener ?entries = map fst (screenerCounts rows)"
    by (simp add: comp_def case_prod_beta)
  have counts: "map rowCount ?entries = map snd (screenerCounts rows)"
    by (simp add: comp_def case_prod_beta)
  have mn: "mset (map screener (pivotOf lc rows)) = mset (map fst (screenerCounts rows))"
    using m names by (metis mset_map)
  have mc: "mset (map rowCount (pivotOf lc rows)) = mset (map snd (screenerCounts rows))"
    using m counts by (metis mset_map)
  show "distinct (map screener (pivotOf lc rows))"
    using mn tally_distinct [of "[]" rows]
    by (metis distinct.simps(1) list.simps(8) mset_eq_imp_distinct_iff screenerCounts_tally)
  show "set (map screener (pivotOf lc rows)) = screenerOf ` set rows"
    using mset_eq_setD [OF mn] by (simp add: screenerCounts_tally tally_names)
  show "\<forall>e \<in> set (pivotOf lc rows).
      rowCount e = length (filter (\<lambda>row. screenerOf row = screener e) rows) \<and> 0 < rowCount e"
  proof
    fix e
    assume "e \<in> set (pivotOf lc rows)"
    then have "e \<in> set ?entries"
      using mset_eq_setD [OF m] by simp
    then have "(screener e, rowCount e) \<in> set (screenerCounts rows)"
      by auto
    then show "rowCount e = length (filter (\<lambda>row. screenerOf row = screener e) rows)
        \<and> 0 < rowCount e"
      by (rule screenerCounts_entry)
  qed
  show "sum_list (map rowCount (pivotOf lc rows)) = length rows"
    using mc tally_sum [of "[]" rows]
    by (metis add_0 list.simps(8) sum_mset_sum_list screenerCounts_tally sum_list.Nil)
  show "sorted_wrt (\<lambda>a b. lc (screener a) (screener b) \<le> 0) (pivotOf lc rows)"
    if c: "consistentCompare lc"
  proof -
    have asym: "\<And>a b. ?cmp a b < 0 \<Longrightarrow> \<not> ?cmp b a < 0"
      using c unfolding consistentCompare_def by (metis less_asym)
    have trans: "\<And>a b c. ?cmp a b < 0 \<Longrightarrow> ?cmp b c < 0 \<Longrightarrow> ?cmp a c < 0"
      using c unfolding consistentCompare_def by blast
    have s: "sorted_wrt (\<lambda>a b. \<not> ?cmp b a < 0) (sortBy ?cmp ?entries)"
      using asym trans by (rule sortBy_sorted)
    have le: "?cmp a b \<le> 0" if "\<not> ?cmp b a < 0" for a b
      using c that unfolding consistentCompare_def
      by (metis not_less order.order_iff_strict less_asym)
    have "sorted_wrt (\<lambda>a b. ?cmp a b \<le> 0) (sortBy ?cmp ?entries)"
      using s by (rule sorted_wrt_mono_rel [rotated]) (rule le)
    then show ?thesis
      by (simp add: pivotOf_def)
  qed
qed

lemma lexCompare_flip: "(lexCompare a b < 0) = (0 < lexCompare b a)"
  by (induction a b rule: lexCompare.induct) auto

lemma lexCompare_Cons_less:
  "(lexCompare (x # xs) (y # ys) < 0) =
     ((of_char x :: nat) < of_char y
      \<or> ((of_char x :: nat) = of_char y \<and> lexCompare xs ys < 0))"
  by auto

lemma lexCompare_trans:
  "lexCompare a b < 0 \<Longrightarrow> lexCompare b c < 0 \<Longrightarrow> lexCompare a c < 0"
proof (induction a arbitrary: b c)
  case Nil
  then show ?case by (cases b; cases c) simp_all
next
  case (Cons x xs)
  from Cons.prems(1) obtain y ys where b: "b = y # ys"
    by (cases b) simp_all
  from Cons.prems(2) b obtain z zs where c: "c = z # zs"
    by (cases c) simp_all
  from Cons.prems have
    xy: "(of_char x :: nat) < of_char y
         \<or> ((of_char x :: nat) = of_char y \<and> lexCompare xs ys < 0)" and
    yz: "(of_char y :: nat) < of_char z
         \<or> ((of_char y :: nat) = of_char z \<and> lexCompare ys zs < 0)"
    unfolding b c lexCompare_Cons_less by blast+
  have "(of_char x :: nat) < of_char z
       \<or> ((of_char x :: nat) = of_char z \<and> lexCompare xs zs < 0)"
  proof (cases "(of_char x :: nat) = of_char y \<and> (of_char y :: nat) = of_char z")
    case True
    with xy yz have "lexCompare xs ys < 0" "lexCompare ys zs < 0" by simp_all
    then have "lexCompare xs zs < 0" by (rule Cons.IH)
    with True show ?thesis by simp
  next
    case False
    with xy yz have "(of_char x :: nat) < of_char z" by linarith
    then show ?thesis by simp
  qed
  then show ?case
    unfolding c lexCompare_Cons_less .
qed

lemma lexCompare_consistent: "consistentCompare lexCompare"
  unfolding consistentCompare_def
proof (intro conjI allI impI)
  fix a b
  show "(lexCompare a b < 0) = (0 < lexCompare b a)" by (rule lexCompare_flip)
next
  fix a b c
  assume "lexCompare a b < 0 \<and> lexCompare b c < 0"
  then show "lexCompare a c < 0" using lexCompare_trans by blast
qed

lemma lexCompare_eq_0: "(lexCompare a b = 0) = (a = b)"
  by (induction a b rule: lexCompare.induct) auto

lemma lexCompare_zero_flip: "(lexCompare a b = 0) = (lexCompare b a = 0)"
  by (auto simp add: lexCompare_eq_0)

lemma localeCompare_ascii_less:
  "(localeCompare_ascii a b < 0) =
     (lexCompare (toLowerCase a) (toLowerCase b) < 0
      \<or> (toLowerCase a = toLowerCase b \<and> lexCompare b a < 0))"
  using lexCompare_eq_0 [of "toLowerCase a" "toLowerCase b"]
  by (auto simp add: localeCompare_ascii_def Let_def)

lemma localeCompare_ascii_greater:
  "(0 < localeCompare_ascii a b) =
     (0 < lexCompare (toLowerCase a) (toLowerCase b)
      \<or> (toLowerCase a = toLowerCase b \<and> 0 < lexCompare b a))"
  using lexCompare_eq_0 [of "toLowerCase a" "toLowerCase b"]
  by (auto simp add: localeCompare_ascii_def Let_def)

lemma localeCompare_ascii_consistent: "consistentCompare localeCompare_ascii"
  unfolding consistentCompare_def
proof (intro conjI allI impI)
  fix a b
  show "(localeCompare_ascii a b < 0) = (0 < localeCompare_ascii b a)"
    unfolding localeCompare_ascii_less localeCompare_ascii_greater
    using lexCompare_flip [of "toLowerCase a" "toLowerCase b"] lexCompare_flip [of b a]
    by auto
next
  fix a b c
  assume "localeCompare_ascii a b < 0 \<and> localeCompare_ascii b c < 0"
  then have ab: "lexCompare (toLowerCase a) (toLowerCase b) < 0
      \<or> (toLowerCase a = toLowerCase b \<and> lexCompare b a < 0)"
    and bc: "lexCompare (toLowerCase b) (toLowerCase c) < 0
      \<or> (toLowerCase b = toLowerCase c \<and> lexCompare c b < 0)"
    unfolding localeCompare_ascii_less by simp_all
  from ab bc have "lexCompare (toLowerCase a) (toLowerCase c) < 0
      \<or> (toLowerCase a = toLowerCase c \<and> lexCompare c a < 0)"
    using lexCompare_trans [of "toLowerCase a" "toLowerCase b" "toLowerCase c"]
      lexCompare_trans [of c b a]
    by auto
  then show "localeCompare_ascii a c < 0"
    unfolding localeCompare_ascii_less .
qed

lemma localeCompare_ascii_separating: "separatingCompare localeCompare_ascii"
  unfolding separatingCompare_def
proof (intro allI impI)
  fix a b
  assume "localeCompare_ascii a b = 0"
  then have "lexCompare b a = 0"
    by (simp add: localeCompare_ascii_def Let_def split: if_splits)
  then show "a = b"
    by (simp add: lexCompare_eq_0)
qed

lemma sorted_wrt_strict:
  fixes cmp :: "string \<Rightarrow> string \<Rightarrow> int"
  assumes "sorted_wrt (\<lambda>a b. cmp (f a) (f b) \<le> 0) xs"
    and "distinct (map f xs)"
    and "separatingCompare cmp"
  shows "sorted_wrt (\<lambda>a b. cmp (f a) (f b) < 0) xs"
  using assms(1,2)
proof (induction xs)
  case Nil
  show ?case by simp
next
  case (Cons x xs)
  have "cmp (f x) (f y) < 0" if "y \<in> set xs" for y
  proof -
    from Cons.prems that have "cmp (f x) (f y) \<le> 0" and "f x \<noteq> f y"
      by auto
    moreover from assms(3) \<open>f x \<noteq> f y\<close> have "cmp (f x) (f y) \<noteq> 0"
      unfolding separatingCompare_def by blast
    ultimately show ?thesis by simp
  qed
  with Cons show ?case
    by simp
qed

text \<open>
  Claim C6 says that the pivot is sorted by name under the ordinary lexicographic
  comparison of strings. The code sorts with
  \<^verbatim>\<open>a.screener.localeCompare(b.screener)\<close>, and the host's comparison puts \<open>alice\<close>
  before \<open>Bob\<close>: with these two names and a row without a name for its bucket the
  pivot is \<open>alice\<close>, \<open>Bob\<close>, \<open>UNASSIGNED_GENERAL\<close>, which is not ascending by
  character codes, where \<open>Bob\<close> is first.
\<close>

theorem pivot_is_not_in_character_code_order:
  "assignAndGenerateExcel localeCompare_ascii
     [[Str ''ID'', Str ''Info_VLOOKUP'', Str ''Dup_VLOOKUP''],
      [Num (Val 1), Str ''x'', Str ''#N/A''],
      [Num (Val 2), Str ''CN'', Str ''#N/A''],
      [Num (Val 3), Str ''CN'', Str ''#N/A'']]
     [''Bob'', ''alice''] [] [] [] NONE
   = Inr \<lparr>fileData = [[Str ''Screener'', Str ''ID'', Str ''Info_VLOOKUP'', Str ''Dup_VLOOKUP''],
                       [Str ''Bob'', Num (Val 2), Str ''CN'', Str ''#N/A''],
                       [Str ''alice'', Num (Val 3), Str ''CN'', Str ''#N/A''],
                       [Str ''UNASSIGNED_GENERAL'', Num (Val 1), Str ''x'', Str ''#N/A'']],
          pivotData = [\<lparr>screener = ''alice'', rowCount = 1\<rparr>,
                       \<lparr>screener = ''Bob'', rowCount = 1\<rparr>,
                       \<lparr>screener = ''UNASSIGNED_GENERAL'', rowCount = 1\<rparr>]\<rparr>
   \<and> \<not> sorted_wrt (\<lambda>a b. lexCompare (screener a) (screener b) \<le> 0)
       [\<lparr>screener = ''alice'', rowCount = 1\<rparr>,
        \<lparr>screener = ''Bob'', rowCount = 1\<rparr>,
        \<lparr>screener = ''UNASSIGNED_GENERAL'', rowCount = 1\<rparr>]
   \<and> lexCompare ''Bob'' ''alice'' < 0"
  by code_simp

text \<open>
  Claim C6, amended. The pivot that the assignment step returns has exactly one entry for
  each owner name that received at least one row, a sentinel being a name as any other:
  the names of the pivot are distinct, they are the first cells of the data rows of the
  final sheet, and the count of an entry is the number of these rows with that name,
  which is positive. The counts sum to the number of assigned rows. The entries are
  sorted ascending by name under the host's comparison \<^verbatim>\<open>localeCompare\<close>, not under
  the comparison of character codes: for any comparison that is consistent the pivot is
  sorted by it, and strictly ascending when the comparison is 0 on equal names only.
\<close>

theorem pivot_tallies_owners:
  "assignAndGenerateExcel lc pd cn jp sp gen z = Inr res \<longrightarrow>
     distinct (map screener (pivotData res))
     \<and> set (map screener (pivotData res)) = screenerOf ` set (drop 1 (fileData res))
     \<and> (\<forall>e \<in> set (pivotData res).
           rowCount e = length (filter (\<lambda>row. screenerOf row = screener e) (drop 1 (fileData res)))
           \<and> 0 < rowCount e)
     \<and> sum_list (map rowCount (pivotData res)) = length (drop 1 (fileData res))
     \<and> (consistentCompare lc \<longrightarrow>
           sorted_wrt (\<lambda>a b. lc (screener a) (screener b) \<le> 0) (pivotData res))
     \<and> (consistentCompare lc \<longrightarrow> separatingCompare lc \<longrightarrow>
           sorted_wrt (\<lambda>a b. lc (screener a) (screener b) < 0) (pivotData res))"
proof
  assume a: "assignAndGenerateExcel lc pd cn jp sp gen z = Inr res"
  have tally: "distinct (map screener (pivotData res))
     \<and> set (map screener (pivotData res)) = screenerOf ` set (drop 1 (fileData res))
     \<and> (\<forall>e \<in> set (pivotData res).
           rowCount e = length (filter (\<lambda>row. screenerOf row = screener e) (drop 1 (fileData res)))
           \<and> 0 < rowCount e)
     \<and> sum_list (map rowCount (pivotData res)) = length (drop 1 (fileData res))
     \<and> (consistentCompare lc \<longrightarrow>
           sorted_wrt (\<lambda>a b. lc (screener a) (screener b) \<le> 0) (pivotData res))"
  proof (cases "2 \<le> length pd")
    case False
    with a have "fileData res = [if length pd > 0 then pd ! 0 else []]" "pivotData res = []"
      by (auto simp add: assignAndGenerateExcel_def Let_def)
    then show ?thesis by simp
  next
    case True
    with a obtain dupIdx assigned where
      f: "finalAssignedRows (pd ! 0) cn jp sp gen z (filterRows dupIdx (drop 1 pd)) = Inr assigned" and
      p: "pivotData res = pivotOf lc assigned" and
      fd: "fileData res =
         (Str ''Screener'' # removeCTR (findIndex (\<lambda>h. h = Str ''CTR'') (pd ! 0)) 0 (pd ! 0))
         # map (removeCTR (findIndex (\<lambda>h. h = Str ''CTR'') (pd ! 0)) 1) assigned"
      by (blast elim: assign_success)
    let ?rows = "drop 1 (fileData res)"
    have m: "map screenerOf ?rows = map screenerOf assigned"
      using finalAssignedRows_rows(2) [OF f]
      by (simp add: fd map_screenerOf_removeCTR del: map_map)
    have s: "screenerOf ` set ?rows = screenerOf ` set assigned"
      using m by (metis set_map)
    have l: "length ?rows = length assigned"
      by (simp add: fd)
    have c: "length (filter (\<lambda>row. screenerOf row = name) ?rows)
           = length (filter (\<lambda>row. screenerOf row = name) assigned)" for name
    proof -
      have e: "length (filter (\<lambda>row. screenerOf row = name) rows)
             = length (filter (\<lambda>s. s = name) (map screenerOf rows))" for rows
        by (induction rows) simp_all
      show ?thesis by (simp only: e m)
    qed
    show ?thesis
      unfolding p s l c using pivotOf_props [of lc assigned] by blast
  qed
  have strict: "sorted_wrt (\<lambda>a b. lc (screener a) (screener b) < 0) (pivotData res)"
    if "consistentCompare lc" and "separatingCompare lc"
  proof (rule sorted_wrt_strict)
    show "sorted_wrt (\<lambda>a b. lc (screener a) (screener b) \<le> 0) (pivotData res)"
      using tally that(1) by blast
    show "distinct (map screener (pivotData res))"
      using tally by blast
    show "separatingCompare lc"
      by (rule that(2))
  qed
  from tally strict show "distinct (map screener (pivotData res))
     \<and> set (map screener (pivotData res)) = screenerOf ` set (drop 1 (fileData res))
     \<and> (\<forall>e \<in> set (pivotData res).
           rowCount e = length (filter (\<lambda>row. screenerOf row = screener e) (drop 1 (fileData res)))
           \<and> 0 < rowCount e)
     \<and> sum_list (map rowCount (pivotData res)) = length (drop 1 (fileData res))
     \<and> (consistentCompare lc \<longrightarrow>
           sorted_wrt (\<lambda>a b. lc (screener a) (screener b) \<le> 0) (pivotData res))
     \<and> (consistentCompare lc \<longrightarrow> separatingCompare lc \<longrightarrow>
           sorted_wrt (\<lambda>a b. lc (screener a) (screener b) < 0) (pivotData res))"
    by blast
qed

text \<open>
  Four assigned rows, two of them for \<open>alice\<close>, one for \<open>Bob\<close> and one without a name
  for its bucket, under the comparison of the host on ASCII letters: the pivot has the
  three names in the order \<open>alice\<close>, \<open>Bob\<close>, \<open>UNASSIGNED_GENERAL\<close>, and its counts
  sum to four.
\<close>

theorem pivot_tallies_owners_witness:
  "assignAndGenerateExcel localeCompare_ascii
     [[Str ''ID'', Str ''Info_VLOOKUP'', Str ''Dup_VLOOKUP''],
      [Num (Val 1), Str ''x'', Str ''#N/A''],
      [Num (Val 2), Str ''CN'', Str ''#N/A''],
      [Num (Val 3), Str ''CN'', Str ''#N/A''],
      [Num (Val 4), Str ''CN'', Str ''#N/A'']]
     [''alice'', ''Bob''] [] [] [] NONE
   = Inr \<lparr>fileData = [[Str ''Screener'', Str ''ID'', Str ''Info_VLOOKUP'', Str ''Dup_VLOOKUP''],
                       [Str ''alice'', Num (Val 2), Str ''CN'', Str ''#N/A''],
                       [Str ''Bob'', Num (Val 3), Str ''CN'', Str ''#N/A''],
                       [Str ''alice'', Num (Val 4), Str ''CN'', Str ''#N/A''],
                       [Str ''UNASSIGNED_GENERAL'', Num (Val 1), Str ''x'', Str ''#N/A'']],
          pivotData = [\<lparr>screener = ''alice'', rowCount = 2\<rparr>,
                       \<lparr>screener = ''Bob'', rowCount = 1\<rparr>,
                       \<lparr>screener = ''UNASSIGNED_GENERAL'', rowCount = 1\<rparr>]\<rparr>
   \<and> consistentCompare localeCompare_ascii
   \<and> separatingCompare localeCompare_ascii
   \<and> sorted_wrt (\<lambda>a b. localeCompare_ascii (screener a) (screener b) < 0)
       [\<lparr>screener = ''alice'', rowCount = 2\<rparr>, \<lparr>screener = ''Bob'', rowCount = 1\<rparr>,
        \<lparr>screener = ''UNASSIGNED_GENERAL'', rowCount = 1\<rparr>]
   \<and> sum_list (map rowCount
       [\<lparr>screener = ''alice'', rowCount = 2\<rparr>, \<lparr>screener = ''Bob'', rowCount = 1\<rparr>,
        \<lparr>screener = ''UNASSIGNED_GENERAL'', rowCount = 1\<rparr>])
     = 4"
proof -
  let ?pd = "[[Str ''ID'', Str ''Info_VLOOKUP'', Str ''Dup_VLOOKUP''],
      [Num (Val 1), Str ''x'', Str ''#N/A''],
      [Num (Val 2), Str ''CN'', Str ''#N/A''],
      [Num (Val 3), Str ''CN'', Str ''#N/A''],
      [Num (Val 4), Str ''CN'', Str ''#N/A'']]"
  let ?pivot = "[\<lparr>screener = ''alice'', rowCount = 2\<rparr>, \<lparr>screener = ''Bob'', rowCount = 1\<rparr>,
                 \<lparr>screener = ''UNASSIGNED_GENERAL'', rowCount = 1\<rparr>]"
  let ?res = "\<lparr>fileData = [[Str ''Screener'', Str ''ID'', Str ''Info_VLOOKUP'', Str ''Dup_VLOOKUP''],
                       [Str ''alice'', Num (Val 2), Str ''CN'', Str ''#N/A''],
                       [Str ''Bob'', Num (Val 3), Str ''CN'', Str ''#N/A''],
                       [Str ''alice'', Num (Val 4), Str ''CN'', Str ''#N/A''],
                       [Str ''UNASSIGNED_GENERAL'', Num (Val 1), Str ''x'', Str ''#N/A'']],
          pivotData = ?pivot\<rparr>"
  have e: "assignAndGenerateExcel localeCompare_ascii ?pd [''alice'', ''Bob''] [] [] [] NONE
      = Inr ?res"
    by code_simp
  have c: "consistentCompare localeCompare_ascii"
    by (rule localeCompare_ascii_consistent)
  have t: "separatingCompare localeCompare_ascii"
    by (rule localeCompare_ascii_separating)
  have "sorted_wrt (\<lambda>a b. localeCompare_ascii (screener a) (screener b) < 0) (pivotData ?res)"
    and "sum_list (map rowCount (pivotData ?res)) = length (drop 1 (fileData ?res))"
    using pivot_tallies_owners [of localeCompare_ascii ?pd "[''alice'', ''Bob'']" "[]" "[]" "[]"
        NONE ?res] e c t
    by blast+
  then have "sorted_wrt (\<lambda>a b. localeCompare_ascii (screener a) (screener b) < 0) ?pivot"
    and "sum_list (map rowCount ?pivot) = 4"
    by simp_all
  with e c t show ?thesis by (intro conjI)
qed

section \<open>The first version and its argument\<close>

text \<open>
  Claim C8 says that the assignment step does not change its input. The version of
  \<^verbatim>\<open>src/services/excelProcessor.ts\<close> does: on a store with a header and one data row,
  the call puts \<open>Screener\<close> in front of the header row of its argument and the owner in
  front of the data row, so the store after the call is not the store before it; and a
  second call on the same argument finds the cells of the first and adds its own.
\<close>

theorem legacy_assignment_mutates_input:
  "assignAndGenerateExcel_legacy
     [[Str ''ID'', Str ''Info_VLOOKUP'', Str ''Dup_VLOOKUP''],
      [Num (Val 1), Str ''CN'', Str ''#N/A'']]
     [0, 1] [''Alice''] [] [] []
   = Inr ([[Str ''Screener'', Str ''ID'', Str ''Info_VLOOKUP'', Str ''Dup_VLOOKUP''],
           [Str ''Alice'', Num (Val 1), Str ''CN'', Str ''#N/A'']],
          [[Str ''Screener'', Str ''ID'', Str ''Info_VLOOKUP'', Str ''Dup_VLOOKUP''],
           [Str ''Alice'', Num (Val 1), Str ''CN'', Str ''#N/A'']])
   \<and> assignAndGenerateExcel_legacy
     [[Str ''Screener'', Str ''ID'', Str ''Info_VLOOKUP'', Str ''Dup_VLOOKUP''],
      [Str ''Alice'', Num (Val 1), Str ''CN'', Str ''#N/A'']]
     [0, 1] [''Alice''] [] [] []
   = Inr ([[Str ''Screener'', Str ''Screener'', Str ''ID'', Str ''Info_VLOOKUP'', Str ''Dup_VLOOKUP''],
           [Str ''Alice'', Str ''Alice'', Num (Val 1), Str ''CN'', Str ''#N/A'']],
          [[Str ''Screener'', Str ''Screener'', Str ''ID'', Str ''Info_VLOOKUP'', Str ''Dup_VLOOKUP''],
           [Str ''Alice'', Str ''Alice'', Num (Val 1), Str ''CN'', Str ''#N/A'']])"
  by code_simp

section \<open>The current assignment step leaves its argument alone\<close>

subsection \<open>The store before the call is a prefix of the store after it\<close>

lemma unshift_frame: "n \<le> r \<Longrightarrow> take n (unshift r c s) = take n s"
  by (simp add: unshift_def)

lemma unshift_length [simp]: "length (unshift r c s) = length s"
  by (simp add: unshift_def)

lemma spliceAt_frame: "n \<le> r \<Longrightarrow> take n (spliceAt i r s) = take n s"
  by (simp add: spliceAt_def)

lemma spliceAt_length [simp]: "length (spliceAt i r s) = length s"
  by (simp add: spliceAt_def)

lemma fold_unshift_frame:
  "\<forall>x \<in> set xs. n \<le> snd x \<Longrightarrow>
   take n (fold (\<lambda>(index, r). unshift r (f index)) xs s) = take n s"
  by (induction xs arbitrary: s) (auto simp add: unshift_frame)

lemma fold_unshift_length:
  "length (fold (\<lambda>(index, r). unshift r (f index)) xs s) = length s"
  by (induction xs arbitrary: s) auto

lemma fold_unshift_const_frame:
  "\<forall>r \<in> set refs. n \<le> r \<Longrightarrow> take n (fold (\<lambda>r. unshift r c) refs s) = take n s"
  by (induction refs arbitrary: s) (auto simp add: unshift_frame)

lemma fold_unshift_const_length:
  "length (fold (\<lambda>r. unshift r c) refs s) = length s"
  by (induction refs arbitrary: s) auto

lemma unshiftOwners_frame:
  assumes "\<forall>r \<in> set refs. n \<le> r"
  shows "take n (unshiftOwners names sentinel refs s) = take n s"
proof -
  have "\<forall>x \<in> set (enumerate 0 refs). n \<le> snd x"
    using assms by (auto simp add: in_set_enumerate_eq)
  then have "take n (fold (\<lambda>(index, r). unshift r (Str (names ! (index mod length names))))
      (enumerate 0 refs) s) = take n s"
    by (rule fold_unshift_frame)
  with assms show ?thesis
    by (simp add: unshiftOwners_def fold_unshift_const_frame)
qed

lemma unshiftOwners_length [simp]: "length (unshiftOwners names sentinel refs s) = length s"
  unfolding unshiftOwners_def
  by (simp add: fold_unshift_length fold_unshift_const_length)

lemma fold_spliceAt_frame:
  "\<forall>r \<in> set refs. n \<le> r \<Longrightarrow> take n (fold (spliceAt i) refs s) = take n s"
  by (induction refs arbitrary: s) (auto simp add: spliceAt_frame)

lemma fold_spliceAt_length [simp]: "length (fold (spliceAt i) refs s) = length s"
  by (induction refs arbitrary: s) auto

lemma categorizeCopies_frame:
  "categorizeCopies codes idx refs b s = (b', s') \<Longrightarrow> n \<le> length s \<Longrightarrow>
   \<forall>r \<in> bucketRefs b. n \<le> r \<Longrightarrow>
   take n s' = take n s \<and> length s \<le> length s' \<and> (\<forall>r \<in> bucketRefs b'. n \<le> r)"
proof (induction refs arbitrary: b s)
  case Nil
  then show ?case by simp
next
  case (Cons r rest)
  let ?v = "infoValueOf idx (deref s r)"
  let ?b = "(if stringIncludes ?v ''CN'' then b\<lparr>cnRefs := cnRefs b @ [length s]\<rparr>
            else if stringIncludes ?v ''JP'' then b\<lparr>jpRefs := jpRefs b @ [length s]\<rparr>
            else if list_ex (\<lambda>code. stringIncludes ?v code) codes
              then b\<lparr>specialRefs := specialRefs b @ [length s]\<rparr>
            else b\<lparr>generalRefs := generalRefs b @ [length s]\<rparr>)"
  from Cons.prems(1) have c: "categorizeCopies codes idx rest ?b (s @ [deref s r]) = (b', s')"
    by (simp add: Let_def alloc_def)
  have n: "n \<le> length (s @ [deref s r])"
    using Cons.prems(2) by simp
  have f: "\<forall>r \<in> bucketRefs ?b. n \<le> r"
    using Cons.prems(2,3) by (auto simp add: bucketRefs_def)
  from Cons.IH [OF c n f] Cons.prems(2) show ?case
    by simp
qed

lemma processAndAssign_store_frame:
  assumes "processAndAssign_store header cn jp sp gen refs s = Inr (out, s')"
    and "n \<le> length s"
  shows "take n s' = take n s \<and> length s \<le> length s' \<and> (\<forall>r \<in> set out. n \<le> r)"
proof -
  from assms(1) obtain idx b s1 where
    c: "categorizeCopies specialCodes idx refs
          \<lparr>cnRefs = [], jpRefs = [], specialRefs = [], generalRefs = []\<rparr> s = (b, s1)" and
    out: "out = cnRefs b @ jpRefs b @ specialRefs b @ generalRefs b" and
    s': "s' = unshiftOwners gen ''UNASSIGNED_GENERAL'' (generalRefs b)
               (unshiftOwners sp ''UNASSIGNED_SPECIAL'' (specialRefs b)
                  (unshiftOwners jp ''UNASSIGNED_JP'' (jpRefs b)
                     (unshiftOwners cn ''UNASSIGNED_CN'' (cnRefs b) s1)))"
    by (auto simp add: processAndAssign_store_def Let_def split: option.splits prod.splits)
  have "\<forall>r \<in> bucketRefs \<lparr>cnRefs = [], jpRefs = [], specialRefs = [], generalRefs = []\<rparr>. n \<le> r"
    by (simp add: bucketRefs_def)
  with c assms(2) have f: "take n s1 = take n s" and l: "length s \<le> length s1"
    and r: "\<forall>r \<in> bucketRefs b. n \<le> r"
    using categorizeCopies_frame by blast+
  from r have "\<forall>r \<in> set (cnRefs b). n \<le> r" "\<forall>r \<in> set (jpRefs b). n \<le> r"
    "\<forall>r \<in> set (specialRefs b). n \<le> r" "\<forall>r \<in> set (generalRefs b). n \<le> r"
    by (simp_all add: bucketRefs_def)
  then have "take n s' = take n s1"
    by (simp add: s' unshiftOwners_frame)
  with f l r show ?thesis
    by (auto simp add: s' out bucketRefs_def)
qed

lemma finalAssignedRows_store_frame:
  assumes "finalAssignedRows_store header cn jp sp gen z refs s = Inr (out, s')"
    and "n \<le> length s"
  shows "take n s' = take n s \<and> length s \<le> length s' \<and> (\<forall>r \<in> set out. n \<le> r)"
proof (cases "z = ZOP")
  case True
  with assms(1) obtain az s1 ao where
    a: "processAndAssign_store header cn jp sp gen (filter (\<lambda>r. isZrax (deref s r)) refs) s
          = Inr (az, s1)" and
    b: "processAndAssign_store header cn jp sp gen (filter (\<lambda>r. \<not> isZrax (deref s r)) refs) s1
          = Inr (ao, s')" and
    out: "out = az @ ao"
    by (auto simp add: finalAssignedRows_store_def Let_def split: sum.splits prod.splits)
  from processAndAssign_store_frame [OF a assms(2)] have
    1: "take n s1 = take n s" "length s \<le> length s1" "\<forall>r \<in> set az. n \<le> r"
    by simp_all
  from 1(2) assms(2) have "n \<le> length s1" by simp
  from processAndAssign_store_frame [OF b this] have
    2: "take n s' = take n s1" "length s1 \<le> length s'" "\<forall>r \<in> set ao. n \<le> r"
    by simp_all
  from 1 2 show ?thesis
    by (auto simp add: out)
next
  case False
  with assms(1) have "processAndAssign_store header cn jp sp gen refs s = Inr (out, s')"
    by (simp add: finalAssignedRows_store_def)
  then show ?thesis using assms(2) by (rule processAndAssign_store_frame)
qed

text \<open>
  Whatever the arguments, a call of the current version that returns leaves every array
  that existed before the call as it was: the store after the call starts with the store
  before it. All the changes (the owner in front, the column \<^verbatim>\<open>CTR\<close> cut out, the
  header cell \<^verbatim>\<open>'Screener'\<close>) are made on arrays that the call has created.
\<close>

theorem assignAndGenerateExcel_store_frame:
  "assignAndGenerateExcel_store lc s pd cn jp sp gen z = Inr (s', res) \<longrightarrow>
     length s \<le> length s' \<and> take (length s) s' = s"
proof
  assume a: "assignAndGenerateExcel_store lc s pd cn jp sp gen z = Inr (s', res)"
  let ?h = "length s"
  let ?s0 = "s @ [if length pd > 0 then deref s (pd ! 0) else []]"
  show "length s \<le> length s' \<and> take (length s) s' = s"
  proof (cases "length pd < 2")
    case True
    with a have "s' = ?s0"
      by (simp add: assignAndGenerateExcel_store_def alloc_def Let_def)
    then show ?thesis by simp
  next
    case False
    with a obtain dupIdx assigned s3 where
      f: "finalAssignedRows_store ?h cn jp sp gen z
            (filter (\<lambda>r. cellAt (deref ?s0 r) dupIdx = Str ''#N/A'') (drop 1 pd)) ?s0
          = Inr (assigned, s3)" and
      s': "s' = unshift ?h (Str ''Screener'')
             (case findIndex (\<lambda>h. h = Str ''CTR'') (deref s3 ?h) of
                None \<Rightarrow> s3
              | Some i \<Rightarrow> fold (spliceAt (i + 1)) assigned (spliceAt i ?h s3))"
      by (auto simp add: assignAndGenerateExcel_store_def alloc_def Let_def
          split: option.splits sum.splits prod.splits)
    have "?h \<le> length ?s0" by simp
    from finalAssignedRows_store_frame [OF f this] have
      3: "take ?h s3 = take ?h ?s0" "length ?s0 \<le> length s3" "\<forall>r \<in> set assigned. ?h \<le> r"
      by simp_all
    have "take ?h s' = take ?h s3"
      using 3(3)
      by (simp add: s' unshift_frame fold_spliceAt_frame spliceAt_frame split: option.splits)
    moreover have "length s' = length s3"
      by (simp add: s' split: option.splits)
    ultimately show ?thesis using 3 by simp
  qed
qed

subsection \<open>The copies and their owners\<close>

lemma deref_append_old: "r < length s \<Longrightarrow> deref (s @ t) r = deref s r"
  by (simp add: deref_def nth_append)

lemma deref_append_new: "i < length t \<Longrightarrow> deref (s @ t) (length s + i) = t ! i"
  by (simp add: deref_def nth_append)

lemma freshRefs_Nil [simp]: "freshRefs codes idx s [] B = []"
  by (simp add: freshRefs_def)

lemma freshRefs_Cons:
  assumes "\<forall>r' \<in> set rest. r' < length s"
  shows "freshRefs codes idx s (r # rest) B =
     (if bucketFor codes idx (deref s r) = B then [length s] else [])
     @ freshRefs codes idx (s @ [deref s r]) rest B"
proof -
  have "filter (\<lambda>i. bucketFor codes idx (deref (s @ [deref s r]) (rest ! i)) = B) [0..<length rest]
      = filter (\<lambda>i. bucketFor codes idx (deref s (rest ! i)) = B) [0..<length rest]"
    using assms by (intro filter_cong) (simp_all add: deref_append_old)
  then show ?thesis
    by (simp add: freshRefs_def filter_upt_Suc_shift comp_def del: upt_Suc)
qed

lemma categorizeCopies_spec:
  assumes "\<forall>r \<in> set refs. r < length s"
  shows "categorizeCopies codes idx refs b s =
     (\<lparr>cnRefs = cnRefs b @ freshRefs codes idx s refs CN,
       jpRefs = jpRefs b @ freshRefs codes idx s refs JP,
       specialRefs = specialRefs b @ freshRefs codes idx s refs SPECIAL,
       generalRefs = generalRefs b @ freshRefs codes idx s refs GENERAL\<rparr>,
      s @ map (deref s) refs)"
  using assms
proof (induction refs arbitrary: b s)
  case Nil
  show ?case by simp
next
  case (Cons r rest)
  let ?s1 = "s @ [deref s r]"
  have rest: "\<forall>r' \<in> set rest. r' < length s"
    using Cons.prems by simp
  then have rest1: "\<forall>r' \<in> set rest. r' < length ?s1"
    by auto
  have m: "map (deref ?s1) rest = map (deref s) rest"
    using rest by (simp add: deref_append_old)
  show ?case
    by (cases "bucketFor codes idx (deref s r)")
       (simp_all add: Let_def alloc_def Cons.IH [OF rest1] freshRefs_Cons [OF rest] m
          bucketFor_def list_ex_iff split: if_splits)
qed

lemma freshRefs_range:
  "r \<in> set (freshRefs codes idx s refs B) \<Longrightarrow> length s \<le> r \<and> r < length s + length refs"
  by (auto simp add: freshRefs_def)

lemma freshRefs_distinct: "distinct (freshRefs codes idx s refs B)"
  by (simp add: freshRefs_def distinct_map inj_on_def)

lemma freshRefs_disjoint:
  "B \<noteq> B' \<Longrightarrow> set (freshRefs codes idx s refs B) \<inter> set (freshRefs codes idx s refs B') = {}"
  by (auto simp add: freshRefs_def)

lemma map_nth_filter_upt: "map (\<lambda>i. xs ! i) (filter (\<lambda>i. P (xs ! i)) [0..<length xs]) = filter P xs"
proof (induction xs)
  case Nil
  show ?case by simp
next
  case (Cons x xs)
  then show ?case
    by (simp add: filter_upt_Suc_shift comp_def del: upt_Suc)
qed

lemma freshRefs_deref:
  assumes "\<forall>r \<in> set refs. r < length s"
  shows "map (deref (s @ map (deref s) refs)) (freshRefs codes idx s refs B) =
         filter (\<lambda>row. bucketFor codes idx row = B) (map (deref s) refs)"
proof -
  let ?rows = "map (deref s) refs"
  have "map (deref (s @ ?rows)) (freshRefs codes idx s refs B) =
      map (\<lambda>i. ?rows ! i) (filter (\<lambda>i. bucketFor codes idx (deref s (refs ! i)) = B) [0..<length refs])"
    by (simp add: freshRefs_def comp_def deref_append_new)
  also have "filter (\<lambda>i. bucketFor codes idx (deref s (refs ! i)) = B) [0..<length refs]
      = filter (\<lambda>i. bucketFor codes idx (?rows ! i) = B) [0..<length ?rows]"
    by (intro filter_cong) simp_all
  also have "map (\<lambda>i. ?rows ! i) \<dots> = filter (\<lambda>row. bucketFor codes idx row = B) ?rows"
    by (rule map_nth_filter_upt)
  finally show ?thesis .
qed

lemma deref_unshift:
  "deref (unshift r c s) r' = (if r' = r \<and> r < length s then c # deref s r else deref s r')"
  by (auto simp add: deref_def unshift_def)

lemma fold_unshift_other:
  "r' \<notin> snd ` set xs \<Longrightarrow>
   deref (fold (\<lambda>(index, r). unshift r (f index)) xs s) r' = deref s r'"
  by (induction xs arbitrary: s) (auto simp add: deref_unshift)

lemma fold_unshift_spec:
  assumes "distinct refs" and "\<forall>r \<in> set refs. r < length s"
  shows "map (deref (fold (\<lambda>(index, r). unshift r (f index)) (enumerate k refs) s)) refs =
         map (\<lambda>(index, r). f index # deref s r) (enumerate k refs)"
  using assms
proof (induction refs arbitrary: k s)
  case Nil
  show ?case by simp
next
  case (Cons r rest)
  let ?s1 = "unshift r (f k) s"
  let ?s' = "fold (\<lambda>(index, r). unshift r (f index)) (enumerate (Suc k) rest) ?s1"
  have d: "distinct rest" and n: "r \<notin> set rest"
    using Cons.prems(1) by simp_all
  have v: "\<forall>r' \<in> set rest. r' < length ?s1"
    using Cons.prems(2) by simp
  have "r \<notin> snd ` set (enumerate (Suc k) rest)"
    using n by (auto simp add: in_set_enumerate_eq)
  then have "deref ?s' r = deref ?s1 r"
    by (rule fold_unshift_other)
  also have "\<dots> = f k # deref s r"
    using Cons.prems(2) by (simp add: deref_unshift)
  finally have h: "deref ?s' r = f k # deref s r" .
  have "map (deref ?s') rest = map (\<lambda>(index, r). f index # deref ?s1 r) (enumerate (Suc k) rest)"
    using d v by (rule Cons.IH)
  also have "\<dots> = map (\<lambda>(index, r). f index # deref s r) (enumerate (Suc k) rest)"
    using n by (intro map_cong) (auto simp add: deref_unshift in_set_enumerate_eq)
  finally show ?case
    by (simp add: h)
qed

lemma fold_unshift_const_other:
  "r' \<notin> set refs \<Longrightarrow> deref (fold (\<lambda>r. unshift r c) refs s) r' = deref s r'"
  by (induction refs arbitrary: s) (auto simp add: deref_unshift)

lemma fold_unshift_const_spec:
  assumes "distinct refs" and "\<forall>r \<in> set refs. r < length s"
  shows "map (deref (fold (\<lambda>r. unshift r c) refs s)) refs = map (\<lambda>r. c # deref s r) refs"
  using assms
proof (induction refs arbitrary: s)
  case Nil
  show ?case by simp
next
  case (Cons r rest)
  let ?s1 = "unshift r c s"
  have d: "distinct rest" and n: "r \<notin> set rest"
    using Cons.prems(1) by simp_all
  have v: "\<forall>r' \<in> set rest. r' < length ?s1"
    using Cons.prems(2) by simp
  have "deref (fold (\<lambda>r. unshift r c) rest ?s1) r = deref ?s1 r"
    using n by (rule fold_unshift_const_other)
  also have "\<dots> = c # deref s r"
    using Cons.prems(2) by (simp add: deref_unshift)
  finally have h: "deref (fold (\<lambda>r. unshift r c) rest ?s1) r = c # deref s r" .
  have "map (deref (fold (\<lambda>r. unshift r c) rest ?s1)) rest = map (\<lambda>r. c # deref ?s1 r) rest"
    using d v by (rule Cons.IH)
  also have "\<dots> = map (\<lambda>r. c # deref s r) rest"
    using n by (intro map_cong) (auto simp add: deref_unshift)
  finally show ?case
    by (simp add: h)
qed

lemma unshiftOwners_other:
  assumes "r' \<notin> set refs"
  shows "deref (unshiftOwners names sentinel refs s) r' = deref s r'"
proof -
  have "r' \<notin> snd ` set (enumerate 0 refs)"
    using assms by (auto simp add: in_set_enumerate_eq)
  then have "deref (fold (\<lambda>(index, r). unshift r (Str (names ! (index mod length names))))
      (enumerate 0 refs) s) r' = deref s r'"
    by (rule fold_unshift_other)
  with assms show ?thesis
    by (simp add: unshiftOwners_def fold_unshift_const_other)
qed

lemma unshiftOwners_spec:
  assumes "distinct refs" and "\<forall>r \<in> set refs. r < length s"
  shows "map (deref (unshiftOwners names sentinel refs s)) refs =
         assignBucket names sentinel (map (deref s) refs)"
proof (cases "length names > 0")
  case True
  have "map (deref (unshiftOwners names sentinel refs s)) refs =
      map (\<lambda>(index, r). Str (names ! (index mod length names)) # deref s r) (enumerate 0 refs)"
    using True fold_unshift_spec [OF assms, of "\<lambda>index. Str (names ! (index mod length names))" 0]
    by (simp add: unshiftOwners_def)
  also have "\<dots> = assignBucket names sentinel (map (deref s) refs)"
    using True by (auto simp add: assignBucket_def nth_enumerate_eq intro!: nth_equalityI)
  finally show ?thesis .
next
  case False
  then show ?thesis
    using fold_unshift_const_spec [OF assms, of "Str sentinel"]
    by (simp add: unshiftOwners_def assignBucket_def comp_def)
qed

lemma unshiftOwners_keep:
  "set R \<inter> set R' = {} \<Longrightarrow>
   map (deref (unshiftOwners names sentinel R' t)) R = map (deref t) R"
proof (rule map_cong [OF refl])
  fix x
  assume "set R \<inter> set R' = {}" and "x \<in> set R"
  then have "x \<notin> set R'"
    by blast
  then show "deref (unshiftOwners names sentinel R' t) x = deref t x"
    by (rule unshiftOwners_other)
qed

lemma unshiftOwners_assign:
  assumes "distinct R" and "\<forall>r \<in> set R. r < length t"
    and "map (deref t) R = rows"
  shows "map (deref (unshiftOwners names sentinel R t)) R = assignBucket names sentinel rows"
  using unshiftOwners_spec [OF assms(1,2)] assms(3) by simp

text \<open>What a call of the helper on the store returns, and what it leaves alone.\<close>

lemma processAndAssign_store_spec:
  assumes valid: "\<forall>r \<in> set refs. r < length s"
    and res: "processAndAssign_store h cn jp sp gen refs s = Inr (out, s')"
  shows "processAndAssign (deref s h) cn jp sp gen (map (deref s) refs) = Inr (map (deref s') out)"
    and "distinct out"
    and "\<forall>r \<in> set out. length s \<le> r \<and> r < length s'"
    and "length s \<le> length s'"
    and "\<forall>r. r < length s \<longrightarrow> deref s' r = deref s r"
proof -
  let ?rows = "map (deref s) refs"
  let ?s1 = "s @ ?rows"
  from res obtain idx where
    idx: "findIndex (\<lambda>h. h = Str ''Info_VLOOKUP'') (deref s h) = Some idx"
    by (auto simp add: processAndAssign_store_def split: option.splits)
  let ?cn = "freshRefs specialCodes idx s refs CN"
  let ?jp = "freshRefs specialCodes idx s refs JP"
  let ?sp = "freshRefs specialCodes idx s refs SPECIAL"
  let ?gen = "freshRefs specialCodes idx s refs GENERAL"
  let ?s2 = "unshiftOwners cn ''UNASSIGNED_CN'' ?cn ?s1"
  let ?s3 = "unshiftOwners jp ''UNASSIGNED_JP'' ?jp ?s2"
  let ?s4 = "unshiftOwners sp ''UNASSIGNED_SPECIAL'' ?sp ?s3"
  let ?s5 = "unshiftOwners gen ''UNASSIGNED_GENERAL'' ?gen ?s4"
  from res idx have out: "out = ?cn @ ?jp @ ?sp @ ?gen" and s': "s' = ?s5"
    by (simp_all add: processAndAssign_store_def categorizeCopies_spec [OF valid] Let_def)
  have range: "r \<in> set (freshRefs specialCodes idx s refs B) \<Longrightarrow> length s \<le> r \<and> r < length ?s1"
    for r B
    using freshRefs_range [of r specialCodes idx s refs B] by simp
  have dj: "B \<noteq> B' \<Longrightarrow>
      set (freshRefs specialCodes idx s refs B) \<inter> set (freshRefs specialCodes idx s refs B') = {}"
    for B B'
    by (rule freshRefs_disjoint)
  have len: "length ?s5 = length ?s1"
    by simp
  show "distinct out"
    using dj [of CN JP] dj [of CN SPECIAL] dj [of CN GENERAL] dj [of JP SPECIAL]
      dj [of JP GENERAL] dj [of SPECIAL GENERAL]
    by (auto simp add: out freshRefs_distinct)
  show "\<forall>r \<in> set out. length s \<le> r \<and> r < length s'"
    unfolding s' len out using range by auto
  show "length s \<le> length s'"
    unfolding s' len by simp
  show "\<forall>r. r < length s \<longrightarrow> deref s' r = deref s r"
  proof (intro allI impI)
    fix r
    assume r: "r < length s"
    then have "r \<notin> set (freshRefs specialCodes idx s refs B)" for B
      using range [of r B] by auto
    then have "deref ?s5 r = deref ?s1 r"
      by (simp add: unshiftOwners_other)
    also have "\<dots> = deref s r"
      using r by (rule deref_append_old)
    finally show "deref s' r = deref s r"
      by (simp add: s')
  qed
  have v1: "\<forall>r \<in> set (freshRefs specialCodes idx s refs B). r < length ?s1" for B
    using range by blast
  have r1: "map (deref ?s1) (freshRefs specialCodes idx s refs B) =
      filter (\<lambda>row. bucketFor specialCodes idx row = B) ?rows" for B
    by (rule freshRefs_deref [OF valid])
  have cn: "map (deref ?s5) ?cn = assignBucket cn ''UNASSIGNED_CN''
      (filter (\<lambda>row. bucketFor specialCodes idx row = CN) ?rows)"
  proof -
    have "map (deref ?s5) ?cn = map (deref ?s2) ?cn"
      using dj [of CN JP] dj [of CN SPECIAL] dj [of CN GENERAL]
      by (simp add: unshiftOwners_keep)
    also have "\<dots> = assignBucket cn ''UNASSIGNED_CN''
        (filter (\<lambda>row. bucketFor specialCodes idx row = CN) ?rows)"
      using freshRefs_distinct v1 r1 by (rule unshiftOwners_assign)
    finally show ?thesis .
  qed
  have jp: "map (deref ?s5) ?jp = assignBucket jp ''UNASSIGNED_JP''
      (filter (\<lambda>row. bucketFor specialCodes idx row = JP) ?rows)"
  proof -
    have "map (deref ?s5) ?jp = map (deref ?s3) ?jp"
      using dj [of JP SPECIAL] dj [of JP GENERAL]
      by (simp add: unshiftOwners_keep)
    also have "\<dots> = assignBucket jp ''UNASSIGNED_JP''
        (filter (\<lambda>row. bucketFor specialCodes idx row = JP) ?rows)"
    proof (rule unshiftOwners_assign [OF freshRefs_distinct])
      show "\<forall>r \<in> set ?jp. r < length ?s2"
        using v1 by simp
      show "map (deref ?s2) ?jp = filter (\<lambda>row. bucketFor specialCodes idx row = JP) ?rows"
        using dj [of JP CN] by (simp add: unshiftOwners_keep r1)
    qed
    finally show ?thesis .
  qed
  have sp: "map (deref ?s5) ?sp = assignBucket sp ''UNASSIGNED_SPECIAL''
      (filter (\<lambda>row. bucketFor specialCodes idx row = SPECIAL) ?rows)"
  proof -
    have "map (deref ?s5) ?sp = map (deref ?s4) ?sp"
      using dj [of SPECIAL GENERAL]
      by (simp add: unshiftOwners_keep)
    also have "\<dots> = assignBucket sp ''UNASSIGNED_SPECIAL''
        (filter (\<lambda>row. bucketFor specialCodes idx row = SPECIAL) ?rows)"
    proof (rule unshiftOwners_assign [OF freshRefs_distinct])
      show "\<forall>r \<in> set ?sp. r < length ?s3"
        using v1 by simp
      show "map (deref ?s3) ?sp = filter (\<lambda>row. bucketFor specialCodes idx row = SPECIAL) ?rows"
        using dj [of SPECIAL CN] dj [of SPECIAL JP] by (simp add: unshiftOwners_keep r1)
    qed
    finally show ?thesis .
  qed
  have gen: "map (deref ?s5) ?gen = assignBucket gen ''UNASSIGNED_GENERAL''
      (filter (\<lambda>row. bucketFor specialCodes idx row = GENERAL) ?rows)"
  proof (rule unshiftOwners_assign [OF freshRefs_distinct])
    show "\<forall>r \<in> set ?gen. r < length ?s4"
      using v1 by simp
    show "map (deref ?s4) ?gen = filter (\<lambda>row. bucketFor specialCodes idx row = GENERAL) ?rows"
      using dj [of GENERAL CN] dj [of GENERAL JP] dj [of GENERAL SPECIAL]
      by (simp add: unshiftOwners_keep r1)
  qed
  show "processAndAssign (deref s h) cn jp sp gen ?rows = Inr (map (deref s') out)"
    by (simp add: processAndAssign_def idx categorize_filter s' out cn jp sp gen)
qed

lemma processAndAssign_store_error:
  "processAndAssign_store h cn jp sp gen refs s = Inl e \<Longrightarrow>
   processAndAssign (deref s h) cn jp sp gen rows = Inl e"
  by (auto simp add: processAndAssign_store_def processAndAssign_def Let_def
      split: option.splits prod.splits)

lemma deref_spliceAt:
  "deref (spliceAt i r s) r' =
     (if r' = r \<and> r < length s then splice1 i (deref s r) else deref s r')"
  by (simp add: spliceAt_def deref_def)

lemma fold_spliceAt_other:
  "r' \<notin> set refs \<Longrightarrow> deref (fold (spliceAt i) refs s) r' = deref s r'"
  by (induction refs arbitrary: s) (auto simp add: deref_spliceAt)

lemma fold_spliceAt_spec:
  assumes "distinct refs" and "\<forall>r \<in> set refs. r < length s"
  shows "map (deref (fold (spliceAt i) refs s)) refs = map (\<lambda>r. splice1 i (deref s r)) refs"
  using assms
proof (induction refs arbitrary: s)
  case Nil
  show ?case by simp
next
  case (Cons r rest)
  let ?s1 = "spliceAt i r s"
  have d: "distinct rest" and n: "r \<notin> set rest"
    using Cons.prems(1) by simp_all
  have v: "\<forall>r' \<in> set rest. r' < length ?s1"
    using Cons.prems(2) by simp
  have "deref (fold (spliceAt i) rest ?s1) r = deref ?s1 r"
    using n by (rule fold_spliceAt_other)
  also have "\<dots> = splice1 i (deref s r)"
    using Cons.prems(2) by (simp add: deref_spliceAt)
  finally have h: "deref (fold (spliceAt i) rest ?s1) r = splice1 i (deref s r)" .
  have "map (deref (fold (spliceAt i) rest ?s1)) rest = map (\<lambda>r. splice1 i (deref ?s1 r)) rest"
    using d v by (rule Cons.IH)
  also have "\<dots> = map (\<lambda>r. splice1 i (deref s r)) rest"
    using n by (intro map_cong) (auto simp add: deref_spliceAt)
  finally show ?case
    by (simp add: h)
qed

lemma map_deref_filter:
  "map (deref s) (filter (\<lambda>r. P (deref s r)) refs) = filter P (map (deref s) refs)"
  by (simp add: filter_map comp_def)

lemma finalAssignedRows_store_spec:
  assumes valid: "\<forall>r \<in> set refs. r < length s"
    and h: "h < length s"
    and res: "finalAssignedRows_store h cn jp sp gen z refs s = Inr (out, s')"
  shows "finalAssignedRows (deref s h) cn jp sp gen z (map (deref s) refs) =
           Inr (map (deref s') out)"
    and "distinct out"
    and "\<forall>r \<in> set out. length s \<le> r \<and> r < length s'"
    and "length s \<le> length s'"
    and "\<forall>r. r < length s \<longrightarrow> deref s' r = deref s r"
proof -
  have "finalAssignedRows (deref s h) cn jp sp gen z (map (deref s) refs) =
           Inr (map (deref s') out) \<and> distinct out \<and>
        (\<forall>r \<in> set out. length s \<le> r \<and> r < length s') \<and> length s \<le> length s' \<and>
        (\<forall>r. r < length s \<longrightarrow> deref s' r = deref s r)"
  proof (cases "z = ZOP")
    case False
    with res have r: "processAndAssign_store h cn jp sp gen refs s = Inr (out, s')"
      by (simp add: finalAssignedRows_store_def)
    show ?thesis
      using processAndAssign_store_spec [OF valid r] False
      by (simp add: finalAssignedRows_def)
  next
    case True
    let ?zr = "filter (\<lambda>r. isZrax (deref s r)) refs"
    let ?ot = "filter (\<lambda>r. \<not> isZrax (deref s r)) refs"
    from res True obtain out1 s1 out2 where
      r1: "processAndAssign_store h cn jp sp gen ?zr s = Inr (out1, s1)" and
      r2: "processAndAssign_store h cn jp sp gen ?ot s1 = Inr (out2, s')" and
      out: "out = out1 @ out2"
      by (auto simp add: finalAssignedRows_store_def Let_def split: sum.splits)
    have vz: "\<forall>r \<in> set ?zr. r < length s"
      using valid by simp
    note p1 = processAndAssign_store_spec [OF vz r1]
    have vo: "\<forall>r \<in> set ?ot. r < length s1"
      using valid p1(4) by auto
    note p2 = processAndAssign_store_spec [OF vo r2]
    have h1: "deref s1 h = deref s h"
      using p1(5) h by simp
    have o1: "map (deref s1) ?ot = map (deref s) ?ot"
      using valid p1(5) by (intro map_cong) auto
    have z: "map (deref s) ?zr = filter isZrax (map (deref s) refs)"
      by (rule map_deref_filter)
    have o: "map (deref s) ?ot = filter (\<lambda>row. \<not> isZrax row) (map (deref s) refs)"
      by (rule map_deref_filter)
    have keep: "map (deref s') out1 = map (deref s1) out1"
      using p1(3) p2(5) by (intro map_cong) auto
    have a: "processAndAssign (deref s h) cn jp sp gen (filter isZrax (map (deref s) refs)) =
        Inr (map (deref s1) out1)"
      using p1(1) by (simp only: z)
    have b: "processAndAssign (deref s h) cn jp sp gen
        (filter (\<lambda>row. \<not> isZrax row) (map (deref s) refs)) = Inr (map (deref s') out2)"
      using p2(1) by (simp only: h1 o1 o)
    have "finalAssignedRows (deref s h) cn jp sp gen z (map (deref s) refs) =
        Inr (map (deref s') out)"
      using True by (simp add: finalAssignedRows_def a b out keep)
    moreover have "distinct out"
      using p1(2,3) p2(2,3) by (fastforce simp add: out)
    moreover have "\<forall>r \<in> set out. length s \<le> r \<and> r < length s'"
      using p1(3,4) p2(3,4) by (fastforce simp add: out)
    moreover have "length s \<le> length s'"
      using p1(4) p2(4) by simp
    moreover have "\<forall>r. r < length s \<longrightarrow> deref s' r = deref s r"
      using p1(4,5) p2(5) by auto
    ultimately show ?thesis
      by blast
  qed
  then show "finalAssignedRows (deref s h) cn jp sp gen z (map (deref s) refs) =
           Inr (map (deref s') out)"
    and "distinct out"
    and "\<forall>r \<in> set out. length s \<le> r \<and> r < length s'"
    and "length s \<le> length s'"
    and "\<forall>r. r < length s \<longrightarrow> deref s' r = deref s r"
    by blast+
qed

lemma finalAssignedRows_store_error:
  assumes valid: "\<forall>r \<in> set refs. r < length s"
    and h: "h < length s"
    and res: "finalAssignedRows_store h cn jp sp gen z refs s = Inl e"
  shows "finalAssignedRows (deref s h) cn jp sp gen z (map (deref s) refs) = Inl e"
proof -
  have e: "e = MissingColumn" and
    none: "findIndex (\<lambda>h. h = Str ''Info_VLOOKUP'') (deref s h) = None"
  proof -
    let ?zr = "filter (\<lambda>r. isZrax (deref s r)) refs"
    have first: "processAndAssign_store h cn jp sp gen rows s = Inl e' \<Longrightarrow>
        e' = MissingColumn \<and> findIndex (\<lambda>h. h = Str ''Info_VLOOKUP'') (deref s h) = None"
      for rows e'
      by (auto simp add: processAndAssign_store_def Let_def split: option.splits prod.splits)
    have "e = MissingColumn \<and> findIndex (\<lambda>h. h = Str ''Info_VLOOKUP'') (deref s h) = None"
    proof (cases "z = ZOP")
      case False
      with res show ?thesis
        using first by (simp add: finalAssignedRows_store_def)
    next
      case True
      show ?thesis
      proof (cases "processAndAssign_store h cn jp sp gen ?zr s")
        case (Inl e')
        with res True have "e' = e"
          by (simp add: finalAssignedRows_store_def Let_def)
        with Inl first show ?thesis
          by blast
      next
        case (Inr p)
        obtain out1 s1 where p: "p = (out1, s1)"
          by (cases p)
        have vz: "\<forall>r \<in> set ?zr. r < length s"
          using valid by simp
        note p1 = processAndAssign_store_spec [OF vz Inr [unfolded p]]
        from res True Inr p have
          "processAndAssign_store h cn jp sp gen (filter (\<lambda>r. \<not> isZrax (deref s r)) refs) s1 = Inl e"
          by (auto simp add: finalAssignedRows_store_def Let_def split: sum.splits)
        then have "e = MissingColumn \<and>
            findIndex (\<lambda>h. h = Str ''Info_VLOOKUP'') (deref s1 h) = None"
          by (auto simp add: processAndAssign_store_def Let_def split: option.splits prod.splits)
        then show ?thesis
          using p1(5) h by simp
      qed
    qed
    then show "e = MissingColumn" and
      "findIndex (\<lambda>h. h = Str ''Info_VLOOKUP'') (deref s h) = None"
      by simp_all
  qed
  show ?thesis
    by (simp add: finalAssignedRows_def processAndAssign_def none e Let_def)
qed

subsection \<open>The call on the store computes the function on values\<close>

text \<open>
  When the rows of the argument are arrays of the store, the call on the store returns
  what the function on values returns for the contents of these rows: the copies make the
  sharing invisible, and the properties proved of \<^const>\<open>assignAndGenerateExcel\<close> are
  properties of the program with its arrays.
\<close>

theorem assignAndGenerateExcel_store_refines:
  assumes valid: "\<forall>r \<in> set pd. r < length s"
  shows "map_sum id snd (assignAndGenerateExcel_store lc s pd cn jp sp gen z) =
         assignAndGenerateExcel lc (map (deref s) pd) cn jp sp gen z"
proof -
  define row0 where "row0 = (if length pd > 0 then deref s (pd ! 0) else [])"
  define h where "h = length s"
  define s0 where "s0 = s @ [row0]"
  have al: "alloc row0 s = (h, s0)"
    by (simp add: alloc_def h_def s0_def)
  have hd: "(if length (map (deref s) pd) > 0 then map (deref s) pd ! 0 else []) = row0"
    by (simp add: row0_def)
  have h0: "deref s0 h = row0"
    by (simp add: deref_def h_def s0_def)
  have hl: "h < length s0"
    by (simp add: h_def s0_def)
  have old: "r \<in> set pd \<Longrightarrow> deref s0 r = deref s r" for r
    using valid by (simp add: s0_def deref_append_old)
  have store0: "assignAndGenerateExcel_store lc s pd cn jp sp gen z =
      (if length pd < 2 then Inr (s0, \<lparr>fileData = [row0], pivotData = []\<rparr>)
       else case findIndex (\<lambda>h. h = Str ''Dup_VLOOKUP'') row0 of
           None \<Rightarrow> Inl MissingColumn
         | Some d \<Rightarrow>
            (case finalAssignedRows_store h cn jp sp gen z
                    (filter (\<lambda>r. cellAt (deref s0 r) d = Str ''#N/A'') (drop 1 pd)) s0 of
             Inl e \<Rightarrow> Inl e
           | Inr (assigned, s3) \<Rightarrow>
               (let pivot = pivotOf lc (map (deref s3) assigned);
                    ctrIndex = findIndex (\<lambda>h. h = Str ''CTR'') (deref s3 h);
                    s4 = (case ctrIndex of
                            None \<Rightarrow> s3
                          | Some i \<Rightarrow> fold (spliceAt (i + 1)) assigned (spliceAt i h s3));
                    s5 = unshift h (Str ''Screener'') s4
                in Inr (s5, \<lparr>fileData = map (deref s5) (h # assigned), pivotData = pivot\<rparr>))))"
    unfolding assignAndGenerateExcel_store_def row0_def [symmetric]
    by (simp add: al h0 Let_def split: option.splits)
  have pure0: "assignAndGenerateExcel lc (map (deref s) pd) cn jp sp gen z =
      (if length pd < 2 then Inr \<lparr>fileData = [row0], pivotData = []\<rparr>
       else case findIndex (\<lambda>h. h = Str ''Dup_VLOOKUP'') row0 of
           None \<Rightarrow> Inl MissingColumn
         | Some d \<Rightarrow>
          (case finalAssignedRows row0 cn jp sp gen z (filterRows d (drop 1 (map (deref s) pd))) of
             Inl e \<Rightarrow> Inl e
           | Inr assigned \<Rightarrow>
               (let ctrIndex = findIndex (\<lambda>h. h = Str ''CTR'') row0
                in Inr \<lparr>fileData = (Str ''Screener'' # removeCTR ctrIndex 0 row0) #
                           map (removeCTR ctrIndex 1) assigned,
                        pivotData = pivotOf lc assigned\<rparr>)))"
    unfolding assignAndGenerateExcel_def hd
    by (simp add: Let_def split: option.splits sum.splits)
  show ?thesis
  proof (cases "length pd < 2")
    case True
    then show ?thesis
      by (simp add: store0 pure0)
  next
    case long: False
    show ?thesis
    proof (cases "findIndex (\<lambda>h. h = Str ''Dup_VLOOKUP'') row0")
      case None
      with long show ?thesis
        by (simp add: store0 pure0)
    next
      case (Some d)
      define fr where "fr = filter (\<lambda>r. cellAt (deref s0 r) d = Str ''#N/A'') (drop 1 pd)"
      have vf: "\<forall>r \<in> set fr. r < length s0"
      proof
        fix r
        assume "r \<in> set fr"
        then have "r \<in> set pd"
          by (auto simp add: fr_def dest: in_set_dropD)
        with valid show "r < length s0"
          by (auto simp add: s0_def)
      qed
      have "map (deref s0) fr =
          filter (\<lambda>row. cellAt row d = Str ''#N/A'') (map (deref s0) (drop 1 pd))"
        unfolding fr_def by (rule map_deref_filter)
      also have "map (deref s0) (drop 1 pd) = map (deref s) (drop 1 pd)"
      proof (rule map_cong [OF refl])
        fix r
        assume "r \<in> set (drop 1 pd)"
        then have "r \<in> set pd"
          by (rule in_set_dropD)
        then show "deref s0 r = deref s r"
          by (rule old)
      qed
      finally have fr: "map (deref s0) fr = filterRows d (drop 1 (map (deref s) pd))"
        by (simp add: filterRows_def drop_map)
      have store: "assignAndGenerateExcel_store lc s pd cn jp sp gen z =
          (case finalAssignedRows_store h cn jp sp gen z fr s0 of
             Inl e \<Rightarrow> Inl e
           | Inr (assigned, s3) \<Rightarrow>
               (let pivot = pivotOf lc (map (deref s3) assigned);
                    ctrIndex = findIndex (\<lambda>h. h = Str ''CTR'') (deref s3 h);
                    s4 = (case ctrIndex of
                            None \<Rightarrow> s3
                          | Some i \<Rightarrow> fold (spliceAt (i + 1)) assigned (spliceAt i h s3));
                    s5 = unshift h (Str ''Screener'') s4
                in Inr (s5, \<lparr>fileData = map (deref s5) (h # assigned), pivotData = pivot\<rparr>)))"
        using long by (simp add: store0 Some fr_def)
      have pure: "assignAndGenerateExcel lc (map (deref s) pd) cn jp sp gen z =
          (case finalAssignedRows row0 cn jp sp gen z (map (deref s0) fr) of
             Inl e \<Rightarrow> Inl e
           | Inr assigned \<Rightarrow>
               (let ctrIndex = findIndex (\<lambda>h. h = Str ''CTR'') row0
                in Inr \<lparr>fileData = (Str ''Screener'' # removeCTR ctrIndex 0 row0) #
                           map (removeCTR ctrIndex 1) assigned,
                        pivotData = pivotOf lc assigned\<rparr>))"
        using long by (simp add: pure0 Some fr)
      show ?thesis
      proof (cases "finalAssignedRows_store h cn jp sp gen z fr s0")
        case (Inl e)
        have "finalAssignedRows row0 cn jp sp gen z (map (deref s0) fr) = Inl e"
          using finalAssignedRows_store_error [OF vf hl Inl] by (simp add: h0)
        then show ?thesis
          by (simp add: store pure Inl)
      next
        case (Inr p)
        obtain assigned s3 where p: "p = (assigned, s3)"
          by (cases p)
        note f = finalAssignedRows_store_spec [OF vf hl Inr [unfolded p]]
        have f1: "finalAssignedRows row0 cn jp sp gen z (map (deref s0) fr) =
            Inr (map (deref s3) assigned)"
          using f(1) by (simp add: h0)
        have h3: "deref s3 h = row0"
          using f(5) hl h0 by simp
        have hn: "h \<notin> set assigned"
          using f(3) hl by auto
        have va: "\<forall>r \<in> set assigned. r < length s3"
          using f(3) by simp
        have hl3: "h < length s3"
          using hl f(4) by simp
        let ?ctr = "findIndex (\<lambda>h. h = Str ''CTR'') row0"
        define s4 where "s4 = (case ?ctr of None \<Rightarrow> s3
          | Some i \<Rightarrow> fold (spliceAt (i + 1)) assigned (spliceAt i h s3))"
        have l4: "length s4 = length s3"
          by (simp add: s4_def split: option.splits)
        have h4: "deref s4 h = removeCTR ?ctr 0 row0"
          using hn hl3
          by (simp add: s4_def removeCTR_def fold_spliceAt_other deref_spliceAt h3
              split: option.splits)
        have a4: "map (deref s4) assigned = map (removeCTR ?ctr 1) (map (deref s3) assigned)"
        proof (cases ?ctr)
          case None
          then show ?thesis
            by (simp add: s4_def removeCTR_def)
        next
          case (Some i)
          have "map (deref s4) assigned =
              map (\<lambda>r. splice1 (i + 1) (deref (spliceAt i h s3) r)) assigned"
            using fold_spliceAt_spec [OF f(2), of "spliceAt i h s3" "i + 1"] va
            by (simp add: s4_def Some)
          also have "\<dots> = map (\<lambda>r. splice1 (i + 1) (deref s3 r)) assigned"
            using hn by (intro map_cong) (auto simp add: deref_spliceAt)
          finally show ?thesis
            by (simp add: removeCTR_def Some comp_def)
        qed
        have h5: "deref (unshift h (Str ''Screener'') s4) h = Str ''Screener'' # removeCTR ?ctr 0 row0"
          using hl3 by (simp add: deref_unshift l4 h4)
        have a5: "map (deref (unshift h (Str ''Screener'') s4)) assigned =
            map (removeCTR ?ctr 1) (map (deref s3) assigned)"
        proof -
          have "map (deref (unshift h (Str ''Screener'') s4)) assigned = map (deref s4) assigned"
            using hn by (intro map_cong) (auto simp add: deref_unshift)
          then show ?thesis
            by (simp only: a4)
        qed
        show ?thesis
          unfolding store pure Inr p f1
          by (simp add: Let_def h3 s4_def [symmetric] h5 a5)
      qed
    qed
  qed
qed

end
